theory Spec2Isabelle
  imports Main "HOL-Library.Char_ord" "HOL-Library.List_Lexorder"
begin

section \<open>Token stream\<close>

text \<open>
  The checks of \<^verbatim>\<open>lib/checkclass.cpp\<close> work on the token list of the tokenizer, a
  doubly linked list of \<^verbatim>\<open>Token\<close> objects. The list is a HOL list here and a
  \<^verbatim>\<open>const Token *\<close> is either \<open>Null\<close> or the index of a token. A dereference of a
  null pointer has no result: every function that can dereference one returns an
  \<open>option\<close>, and \<open>None\<close> stands for the run that does not return normally.

  The tokenizer itself (\<^verbatim>\<open>Token\<close>, \<^verbatim>\<open>Token::Match\<close>, \<^verbatim>\<open>Token::findmatch\<close>,
  \<^verbatim>\<open>Tokenizer::findClassFunction\<close>) is a collaborator whose code is not part of
  \<^verbatim>\<open>lib/checkclass.cpp\<close>. What a token knows about itself (\<open>isName\<close>,
  \<open>isStandardType\<close>, \<open>link\<close>) is a field of the token, fixed by whoever built the list.
\<close>

datatype ptr = Null | Tok nat

record token =
  str :: string
  isName :: bool
  isStandardType :: bool
  link :: ptr

definition tok_next :: "token list \<Rightarrow> nat \<Rightarrow> ptr" where
  "tok_next toks i = (if Suc i < length toks then Tok (Suc i) else Null)"

definition tok_previous :: "token list \<Rightarrow> nat \<Rightarrow> ptr" where
  "tok_previous toks i = (if i = 0 \<or> length toks < i then Null else Tok (i - 1))"

definition tokAt :: "token list \<Rightarrow> nat \<Rightarrow> int \<Rightarrow> ptr" where
  "tokAt toks i n =
     (let j = int i + n in if 0 \<le> j \<and> j < int (length toks) then Tok (nat j) else Null)"

text \<open>\<^verbatim>\<open>Token::strAt\<close> gives the empty string where \<^verbatim>\<open>tokAt\<close> gives no token.\<close>

definition strAt :: "token list \<Rightarrow> nat \<Rightarrow> int \<Rightarrow> string" where
  "strAt toks i n = (case tokAt toks i n of Null \<Rightarrow> [] | Tok j \<Rightarrow> str (toks ! j))"

text \<open>\<^verbatim>\<open>p->str()\<close>, \<^verbatim>\<open>p->next()\<close>, \<^verbatim>\<open>p->link()\<close> on a pointer that may be null.\<close>

definition deref :: "token list \<Rightarrow> ptr \<Rightarrow> nat option" where
  "deref toks p = (case p of Null \<Rightarrow> None | Tok i \<Rightarrow> if i < length toks then Some i else None)"

definition str_of :: "token list \<Rightarrow> ptr \<Rightarrow> string option" where
  "str_of toks p = map_option (\<lambda>i. str (toks ! i)) (deref toks p)"

definition next_of :: "token list \<Rightarrow> ptr \<Rightarrow> ptr option" where
  "next_of toks p = map_option (tok_next toks) (deref toks p)"

definition link_of :: "token list \<Rightarrow> ptr \<Rightarrow> ptr option" where
  "link_of toks p = map_option (\<lambda>i. link (toks ! i)) (deref toks p)"

subsection \<open>Patterns\<close>

text \<open>
  Modelled from the spec: \<^verbatim>\<open>Token::Match\<close> and \<^verbatim>\<open>Token::simpleMatch\<close> (section 4.A of
  the specification; their code is in the tokenizer). A pattern is a sequence of slots. A
  slot lists its alternatives (\<^verbatim>\<open>a|b\<close>) and says whether the empty alternative is among
  them (\<^verbatim>\<open>const|\<close>), in which case a token that matches none of the alternatives is
  left for the next slot. \<^verbatim>\<open>%var%\<close> is a name, \<^verbatim>\<open>%type%\<close> a name other than
  \<^verbatim>\<open>delete\<close>, \<^verbatim>\<open>%any%\<close> any token. A one-character class \<^verbatim>\<open>[;{}]\<close> is the slot of
  its characters. No token, no match.
\<close>

datatype patom = Lit string | AnyVar | AnyType | AnyTok

type_synonym pslot = "patom list \<times> bool"

fun atomMatch :: "token \<Rightarrow> patom \<Rightarrow> bool" where
  "atomMatch t (Lit s) = (str t = s)"
| "atomMatch t AnyVar = isName t"
| "atomMatch t AnyType = (isName t \<and> str t \<noteq> ''delete'')"
| "atomMatch t AnyTok = True"

fun Match :: "token list \<Rightarrow> ptr \<Rightarrow> pslot list \<Rightarrow> bool" where
  "Match toks p [] = True"
| "Match toks Null (s # ss) = False"
| "Match toks (Tok i) ((alts, opt) # ss) =
     (if length toks \<le> i then False
      else if list_ex (atomMatch (toks ! i)) alts then Match toks (tok_next toks i) ss
      else opt \<and> Match toks (Tok i) ss)"

abbreviation pLit :: "string \<Rightarrow> pslot" where "pLit s \<equiv> ([Lit s], False)"
abbreviation pAlt :: "string list \<Rightarrow> pslot" where "pAlt ss \<equiv> (map Lit ss, False)"
abbreviation pOpt :: "string list \<Rightarrow> pslot" where "pOpt ss \<equiv> (map Lit ss, True)"
abbreviation pVar :: pslot where "pVar \<equiv> ([AnyVar], False)"
abbreviation pOptVar :: pslot where "pOptVar \<equiv> ([AnyVar], True)"
abbreviation pType :: pslot where "pType \<equiv> ([AnyType], False)"
abbreviation pAny :: pslot where "pAny \<equiv> ([AnyTok], False)"

text \<open>
  A pattern that the code puts together from names at run time
  (\<^verbatim>\<open>classPath + classPattern\<close>, \<^verbatim>\<open>path + first->next()->str()\<close>) is a string of
  words between blanks; each word is a literal slot. (Names are taken to hold none of
  the pattern language's own characters.)
\<close>

fun words_acc :: "string \<Rightarrow> string \<Rightarrow> string list" where
  "words_acc acc [] = (if acc = [] then [] else [rev acc])"
| "words_acc acc (c # cs) =
     (if c = CHR '' '' then (if acc = [] then words_acc [] cs else rev acc # words_acc [] cs)
      else words_acc (c # acc) cs)"

definition litPattern :: "string \<Rightarrow> pslot list" where
  "litPattern s = map pLit (words_acc [] s)"

text \<open>\<^verbatim>\<open>Token::findmatch(tok, pattern, end)\<close>: the first token from \<open>tok\<close> on, before
  \<open>end\<close>, at which the pattern matches.\<close>

function findmatch_from :: "token list \<Rightarrow> nat \<Rightarrow> pslot list \<Rightarrow> ptr \<Rightarrow> ptr" where
  "findmatch_from toks i pat e =
     (if length toks \<le> i \<or> Tok i = e then Null
      else if Match toks (Tok i) pat then Tok i
      else findmatch_from toks (Suc i) pat e)"
  by pat_completeness auto
termination
  by (relation "measure (\<lambda>(toks, i, pat, e). length toks - i)") auto

definition findmatch :: "token list \<Rightarrow> ptr \<Rightarrow> pslot list \<Rightarrow> ptr \<Rightarrow> ptr" where
  "findmatch toks p pat e = (case p of Null \<Rightarrow> Null | Tok i \<Rightarrow> findmatch_from toks i pat e)"


declare Match.simps [simp del]

subsection \<open>Token lists of source texts\<close>

text \<open>
  The concrete inputs below are written as the words of a source text. A word that begins
  with a letter or an underscore is a name; the brackets are linked in pairs, as
  \<^verbatim>\<open>Tokenizer::createLinks\<close> does; every other token has no link.
\<close>

definition name_chars :: string where
  "name_chars = ''_abcdefghijklmnopqrstuvwxyzABCDEFGHIJKLMNOPQRSTUVWXYZ''"

definition standard_types :: "string list" where
  "standard_types = [''bool'', ''char'', ''short'', ''int'', ''long'', ''float'', ''double'', ''size_t'']"

fun bracket_pairs :: "string list \<Rightarrow> nat \<Rightarrow> nat list \<Rightarrow> (nat \<times> nat) list" where
  "bracket_pairs [] i st = []"
| "bracket_pairs (w # ws) i st =
     (if w \<in> set [''{'', ''('', ''[''] then bracket_pairs ws (Suc i) (i # st)
      else if w \<in> set [''}'', '')'', '']''] then
        (case st of
           [] \<Rightarrow> bracket_pairs ws (Suc i) []
         | j # st' \<Rightarrow> (i, j) # (j, i) # bracket_pairs ws (Suc i) st')
      else bracket_pairs ws (Suc i) st)"

definition tokenize :: "string list \<Rightarrow> token list" where
  "tokenize ws =
     map (\<lambda>(i, w).
            \<lparr>str = w,
             isName = (w \<noteq> [] \<and> hd w \<in> set name_chars),
             isStandardType = (w \<in> set standard_types),
             link = (case map_of (bracket_pairs ws 0 []) i of None \<Rightarrow> Null | Some j \<Rightarrow> Tok j)\<rparr>)
         (enumerate 0 ws)"

section \<open>argsMatch\<close>

text \<open>
  \<^verbatim>\<open>CheckClass::argsMatch\<close> walks the argument list of the declaration (\<open>first\<close>) and
  of a candidate definition (\<open>second\<close>) in step, from the token after the opening
  parenthesis. \<open>path\<close> is the class path (\<^verbatim>\<open>"A :: "\<close>) and \<open>depth\<close> the number of
  names in it.

  \<open>argsMatch_body\<close> is one round of the \<^verbatim>\<open>while\<close> loop, entered with
  \<^verbatim>\<open>first->str() == second->str()\<close>: it gives the result of the call (\<open>Inl\<close>) or
  the two cursors of the next round (\<open>Inr\<close>). The branch for different variable names
  and the branch for a variable with a class path are \<open>argsMatch_skipNames\<close> and
  \<open>argsMatch_classPath\<close>.
\<close>

definition short_path :: "string \<Rightarrow> string" where
  "short_path path =
     rev (dropWhile (\<lambda>c. c \<noteq> CHR '' '') (rev (take (length path - 4) path)))"

definition argsMatch_skipNames :: "token list \<Rightarrow> nat \<Rightarrow> nat \<Rightarrow> (ptr \<times> ptr) option" where
  "argsMatch_skipNames toks fn sn =
     (case str_of toks (tok_next toks fn) of
        None \<Rightarrow> None
      | Some x \<Rightarrow>
          (case (if x = ''='' then deref toks (tokAt toks fn 2) else Some fn) of
             None \<Rightarrow> None
           | Some first' \<Rightarrow> Some (tok_next toks first', tok_next toks sn)))"

definition argsMatch_classPath ::
  "token list \<Rightarrow> nat \<Rightarrow> nat \<Rightarrow> nat \<Rightarrow> string \<Rightarrow> nat \<Rightarrow> (ptr \<times> ptr) option" where
  "argsMatch_classPath toks s fn sn path depth =
     (if Match toks (Tok sn) (litPattern (path @ str (toks ! fn))) then
        (case next_of toks (tokAt toks s (int depth * 2)) of
           None \<Rightarrow> None
         | Some second' \<Rightarrow> Some (Tok fn, second'))
      else if 1 < depth \<and> Match toks (Tok sn) (litPattern (short_path path @ str (toks ! fn))) then
        (case next_of toks (tokAt toks s ((int depth - 1) * 2)) of
           None \<Rightarrow> None
         | Some second' \<Rightarrow> Some (Tok fn, second'))
      else Some (Tok fn, Tok sn))"

definition argsMatch_body ::
  "token list \<Rightarrow> nat \<Rightarrow> nat \<Rightarrow> string \<Rightarrow> nat \<Rightarrow> (bool + ptr \<times> ptr) option" where
  "argsMatch_body toks f s path depth =
     (if str (toks ! f) = '')'' then Some (Inl True)
      else (case deref toks (tok_next toks f) of None \<Rightarrow> None | Some fn \<Rightarrow>
        if str (toks ! fn) = ''='' then Some (Inr (tokAt toks f 2, Tok s))
        else (case deref toks (tok_next toks s) of None \<Rightarrow> None | Some sn \<Rightarrow>
          if str (toks ! fn) = '','' \<and> str (toks ! sn) \<noteq> '','' then
            Some (Inr (Tok fn, tok_next toks sn))
          else if str (toks ! fn) = '')'' \<and> str (toks ! sn) \<noteq> '')'' then
            Some (Inr (Tok fn, tok_next toks sn))
          else if str (toks ! sn) = '','' \<and> str (toks ! fn) \<noteq> '','' then
            Some (Inr (tok_next toks fn, Tok sn))
          else if str (toks ! sn) = '')'' \<and> str (toks ! fn) \<noteq> '')'' then
            Some (Inr (tok_next toks fn, Tok sn))
          else if str (toks ! s) = '')'' then Some (Inl False)
          else if Match toks (Tok fn) [pVar, pAlt ['','', '')'', ''='']]
                  \<and> Match toks (Tok sn) [pVar, pAlt ['','', '')'']]
                  \<and> str (toks ! fn) \<noteq> str (toks ! sn) then
            map_option Inr (argsMatch_skipNames toks fn sn)
          else if depth \<noteq> 0 \<and> Match toks (Tok fn) [pVar] then
            map_option Inr (argsMatch_classPath toks s fn sn path depth)
          else Some (Inr (Tok fn, Tok sn)))))"

lemma deref_next: "deref toks (tok_next toks f) = (if Suc f < length toks then Some (Suc f) else None)"
  by (simp add: deref_def tok_next_def)

lemma deref_Tok: "deref toks (Tok f) = (if f < length toks then Some f else None)"
  by (simp add: deref_def)

lemma deref_tokAt2: "deref toks (tokAt toks f 2) = (if f + 2 < length toks then Some (f + 2) else None)"
  by (auto simp add: deref_def tokAt_def Let_def nat_add_distrib)

lemma tok_next_cases: "tok_next toks i = Null \<or> tok_next toks i = Tok (Suc i)"
  by (simp add: tok_next_def)

lemma tokAt2_cases: "tokAt toks f 2 = Null \<or> tokAt toks f 2 = Tok (f + 2)"
  by (auto simp: tokAt_def Let_def nat_add_distrib)

definition fwd :: "nat \<Rightarrow> ptr \<Rightarrow> bool" where
  "fwd f p = (case p of Null \<Rightarrow> True | Tok f' \<Rightarrow> f < f')"

lemma fwd_simps [simp]: "fwd f Null" "fwd f (Tok f') = (f < f')"
  by (simp_all add: fwd_def)

lemma fwd_next [simp]: "f \<le> i \<Longrightarrow> fwd f (tok_next toks i)"
  using tok_next_cases[of toks i] by auto

lemma fwd_weaken: "fwd (Suc f) p \<Longrightarrow> fwd f p"
  by (cases p) auto

lemma fwd_tokAt2 [simp]: "fwd f (tokAt toks f 2)"
  using tokAt2_cases[of toks f] by auto


definition fwd_res :: "nat \<Rightarrow> (bool + ptr \<times> ptr) option \<Rightarrow> bool" where
  "fwd_res f r = (case r of Some (Inr (a, b)) \<Rightarrow> fwd f a | _ \<Rightarrow> True)"

lemma fwd_res_simps [simp]:
  "fwd_res f None" "fwd_res f (Some (Inl x))" "fwd_res f (Some (Inr (a, b))) = fwd f a"
  by (simp_all add: fwd_res_def)

lemma fwd_res_if: "(c \<Longrightarrow> fwd_res f x) \<Longrightarrow> (\<not> c \<Longrightarrow> fwd_res f y) \<Longrightarrow> fwd_res f (if c then x else y)"
  by simp

lemma fwd_res_next:
  "(Suc i < length toks \<Longrightarrow> fwd_res f (g (Suc i)))
   \<Longrightarrow> fwd_res f (case deref toks (tok_next toks i) of None \<Rightarrow> None | Some v \<Rightarrow> g v)"
  by (simp add: deref_next)

lemma argsMatch_skipNames_forward: "fwd_res f (map_option Inr (argsMatch_skipNames toks (Suc f) sn))"
  by (cases "tok_next toks (Suc f)")
     (auto simp: argsMatch_skipNames_def deref_tokAt2 str_of_def deref_Tok tok_next_def
           split: option.splits if_splits)

lemma argsMatch_classPath_forward:
  "fwd_res f (map_option Inr (argsMatch_classPath toks s (Suc f) sn path depth))"
  by (simp add: argsMatch_classPath_def split: option.split)

lemma argsMatch_body_forward: "fwd_res f (argsMatch_body toks f s path depth)"
  unfolding argsMatch_body_def
  apply (rule fwd_res_if, simp)
  apply (rule fwd_res_next)
  apply (rule fwd_res_if, simp)
  apply (rule fwd_res_next)
  apply (intro fwd_res_if argsMatch_skipNames_forward argsMatch_classPath_forward)
  apply (simp_all only: fwd_res_simps fwd_simps lessI fwd_next le_SucI order_refl Suc_n_not_le_n)
  done

function argsMatch :: "token list \<Rightarrow> ptr \<Rightarrow> ptr \<Rightarrow> string \<Rightarrow> nat \<Rightarrow> bool option" where
  "argsMatch toks first second path depth =
     (case deref toks first of
        None \<Rightarrow> None
      | Some f \<Rightarrow>
          (case deref toks second of
             None \<Rightarrow> None
           | Some s \<Rightarrow>
               if str (toks ! f) \<noteq> str (toks ! s) then Some False
               else (case argsMatch_body toks f s path depth of
                       None \<Rightarrow> None
                     | Some (Inl b) \<Rightarrow> Some b
                     | Some (Inr (first', second')) \<Rightarrow> argsMatch toks first' second' path depth)))"
  by pat_completeness auto
termination
proof (relation "measure (\<lambda>(toks, first, second, path, depth).
            case first of Null \<Rightarrow> 0 | Tok f \<Rightarrow> Suc (length toks - f))", goal_cases)
  case 1
  show ?case by simp
next
  case (2 toks first second path depth f s r z first' second')
  then have f: "first = Tok f" "f < length toks"
    by (auto simp: deref_def split: ptr.splits if_splits)
  from 2 have "argsMatch_body toks f s path depth = Some (Inr (first', second'))" by simp
  with argsMatch_body_forward[of f toks s path depth] have "fwd f first'" by simp
  with f show ?case by (cases first') auto
qed


text \<open>
  C7 (\<^verbatim>\<open>argsMatch\<close> accepts a pair of argument lists that differ only by a default
  value on the side of the declaration). The declaration \<^verbatim>\<open>f ( int a = 0 )\<close> and the
  definition \<^verbatim>\<open>A :: f ( int a )\<close> differ only by the default value, and
  \<^verbatim>\<open>argsMatch\<close> rejects the pair: at \<^verbatim>\<open>a\<close> the branch "skip default value
  assignment" moves \<open>first\<close> to the value \<^verbatim>\<open>0\<close> and goes on with the next round,
  which compares \<^verbatim>\<open>0\<close> with \<^verbatim>\<open>a\<close>. The tokens are those of
  \<^verbatim>\<open>int a = 0 ) int a )\<close>; \<open>first\<close> is token 0 and \<open>second\<close> token 5.
\<close>

theorem argsMatch_default_value_rejected:
  "argsMatch (tokenize [''int'', ''a'', ''='', ''0'', '')'', ''int'', ''a'', '')''])
     (Tok 0) (Tok 5) ''A :: '' 1 = Some False"
  by code_simp

section \<open>getVarList\<close>

text \<open>
  \<^verbatim>\<open>CheckClass::Var\<close> is a cell of a singly linked list (\<^verbatim>\<open>next\<close>); the list that
  starts at a \<^verbatim>\<open>Var *\<close> is a HOL list whose head is the cell the pointer points to.
  \<^verbatim>\<open>new Var(..., varlist)\<close> followed by \<^verbatim>\<open>varlist = var\<close> is \<open>v # varlist\<close>.

  The loops that follow a \<^verbatim>\<open>link()\<close> can run for ever on a token list whose links
  point backward. They take the number of rounds they may make; \<open>None\<close> is the run
  that does not return within it or that dereferences a null pointer.
\<close>

record Var =
  name :: string
  init :: bool
  priv :: bool
  isMutable :: bool
  isStatic :: bool
  isClass :: bool

text \<open>The \<^verbatim>\<open>for\<close> loop of the \<^verbatim>\<open>__published:\<close> section; the result is \<open>tok\<close> when the loop
  is left.\<close>

fun published_loop :: "nat \<Rightarrow> token list \<Rightarrow> nat \<Rightarrow> ptr option" where
  "published_loop 0 toks tok = None"
| "published_loop (Suc n) toks tok =
     (case deref toks (if str (toks ! tok) = ''{'' then link (toks ! tok) else Tok tok) of
        None \<Rightarrow> None
      | Some t \<Rightarrow>
          if Match toks (tok_next toks t) [pAlt [''private:'', ''protected:'', ''public:'']]
          then Some (Tok t)
          else (case tok_next toks t of
                  Null \<Rightarrow> Some Null
                | Tok t' \<Rightarrow> published_loop n toks t'))"

text \<open>The search for the \<^verbatim>\<open>>\<close> that closes a template argument list.\<close>

function find_closing :: "token list \<Rightarrow> nat \<Rightarrow> int \<Rightarrow> ptr" where
  "find_closing toks i level =
     (if length toks \<le> i then Null
      else if str (toks ! i) = ''<'' then find_closing toks (Suc i) (level + 1)
      else if str (toks ! i) = ''>'' then
        (if level - 1 = 0 then Tok i else find_closing toks (Suc i) (level - 1))
      else find_closing toks (Suc i) level)"
  by pat_completeness auto
termination
  by (relation "measure (\<lambda>(toks, i, level). length toks - i)") auto

text \<open>"Is it a variable declaration?": the name of the variable that is declared at
  \<open>next\<close> (empty when the tokens are no declaration) and \<open>isClass\<close>.\<close>

definition declared_name :: "token list \<Rightarrow> ptr \<Rightarrow> string \<times> bool" where
  "declared_name toks nxt =
     (case nxt of
        Null \<Rightarrow> ([], False)
      | Tok i \<Rightarrow>
          if Match toks nxt [pType, pVar, pAlt ['';'', '':'']] then
            (strAt toks i 1, \<not> isStandardType (toks ! i))
          else if Match toks nxt [pAlt [''struct'', ''union''], pType, pVar, pLit '';''] then
            (strAt toks i 2, False)
          else if Match toks nxt [pType, pLit ''*'', pVar, pLit '';''] then
            (strAt toks i 2, False)
          else if Match toks nxt [pType, pType, pLit ''*'', pVar, pLit '';''] then
            (strAt toks i 3, False)
          else if Match toks nxt [pType, pLit ''::'', pType, pLit ''*'', pVar, pLit '';''] then
            (strAt toks i 4, False)
          else if Match toks nxt [pType, pVar, pLit ''['']
                  \<and> strAt toks i 1 \<noteq> ''operator'' then
            (strAt toks i 1, \<not> isStandardType (toks ! i))
          else if Match toks nxt [pType, pLit ''*'', pVar, pLit ''[''] then
            (strAt toks i 2, False)
          else if Match toks nxt [pType, pLit ''::'', pType, pLit ''*'', pVar, pLit ''[''] then
            (strAt toks i 4, False)
          else if Match toks nxt [pType, pLit ''::'', pType, pVar, pLit '';''] then
            (strAt toks i 3, True)
          else if Match toks nxt [pType, pLit ''::'', pType, pLit ''<'']
                  \<or> Match toks nxt [pType, pLit ''<''] then
            (case find_closing toks i 0 of
               Null \<Rightarrow> ([], True)
             | Tok j \<Rightarrow>
                 if Match toks (Tok j) [pLit ''>'', pVar, pLit '';''] then (strAt toks j 1, True)
                 else if Match toks (Tok j) [pLit ''>'', pLit ''*'', pVar, pLit '';''] then
                   (strAt toks j 2, True)
                 else ([], True))
          else ([], False))"

text \<open>Skipping \<^verbatim>\<open>const\<close>, \<^verbatim>\<open>static\<close>, \<^verbatim>\<open>mutable\<close>, \<^verbatim>\<open>const\<close> in front of
  a declaration. \<^verbatim>\<open>next->str()\<close> on a null \<open>next\<close> has no result.\<close>

definition skip_word :: "token list \<Rightarrow> string \<Rightarrow> ptr \<Rightarrow> bool \<times> ptr" where
  "skip_word toks w p =
     (case p of
        Null \<Rightarrow> (False, Null)
      | Tok i \<Rightarrow> if i < length toks \<and> str (toks ! i) = w then (True, tok_next toks i) else (False, p))"

definition statement_var :: "token list \<Rightarrow> nat \<Rightarrow> bool \<Rightarrow> Var option option" where
  "statement_var toks tok pr =
     (case deref toks (tok_next toks tok) of
        None \<Rightarrow> None
      | Some nxt \<Rightarrow>
          if CHR '':'' \<in> set (str (toks ! nxt)) then Some None
          else if str (toks ! nxt) = ''__property'' then Some None
          else
            (let (c1, n1) = skip_word toks ''const'' (Tok nxt);
                 (stat, n2) = skip_word toks ''static'' n1;
                 (mut, n3) = skip_word toks ''mutable'' n2
             in case deref toks n3 of
                  None \<Rightarrow> None
                | Some _ \<Rightarrow>
                    (let (c2, n4) = skip_word toks ''const'' n3;
                         (varname, cls) = declared_name toks n4
                     in if varname \<noteq> [] \<and> varname \<noteq> ''operator''
                        then Some (Some \<lparr>name = varname, init = False, priv = pr,
                                         isMutable = mut, isStatic = stat,
                                         isClass = cls\<rparr>)
                        else Some None)))"

datatype getVarList_step = Break | Continue nat nat bool "Var option"

definition getVarList_body ::
  "nat \<Rightarrow> token list \<Rightarrow> nat \<Rightarrow> nat \<Rightarrow> bool \<Rightarrow> getVarList_step option" where
  "getVarList_body n toks tok indentlevel pr =
     (if tok_next toks tok = Null then Some Break
      else if str (toks ! tok) = ''}'' \<and> indentlevel \<le> 1 then Some Break
      else
        (let indentlevel' =
               (if str (toks ! tok) = ''{'' then indentlevel + 1
                else if str (toks ! tok) = ''}'' then indentlevel - 1
                else indentlevel)
         in if indentlevel' \<noteq> 1 then Some (Continue tok indentlevel' pr None)
            else if str (toks ! tok) = ''__published:'' then
              (case published_loop n toks tok of
                 None \<Rightarrow> None
               | Some Null \<Rightarrow> Some Break
               | Some (Tok t) \<Rightarrow> Some (Continue t indentlevel' False None))
            else
              (let b = (CHR '':'' \<in> set (str (toks ! tok)) \<and> hd (str (toks ! tok)) \<noteq> CHR '':'');
                   priv' = (if b then str (toks ! tok) = ''private:'' else pr)
               in if \<not> Match toks (Tok tok) [pAlt ['';'', ''{'', ''}'']] \<and> \<not> b
                  then Some (Continue tok indentlevel' priv' None)
                  else map_option (Continue tok indentlevel' priv') (statement_var toks tok priv'))))"

fun getVarList_loop ::
  "nat \<Rightarrow> token list \<Rightarrow> nat \<Rightarrow> nat \<Rightarrow> bool \<Rightarrow> Var list \<Rightarrow> Var list option" where
  "getVarList_loop 0 toks tok indentlevel pr varlist = None"
| "getVarList_loop (Suc n) toks tok indentlevel pr varlist =
     (case getVarList_body n toks tok indentlevel pr of
        None \<Rightarrow> None
      | Some Break \<Rightarrow> Some varlist
      | Some (Continue tok' indentlevel' priv' var) \<Rightarrow>
          (let varlist' = (case var of None \<Rightarrow> varlist | Some v \<Rightarrow> v # varlist)
           in case tok_next toks tok' of
                Null \<Rightarrow> Some varlist'
              | Tok t \<Rightarrow> getVarList_loop n toks t indentlevel' priv' varlist'))"

definition getVarList :: "nat \<Rightarrow> token list \<Rightarrow> nat \<Rightarrow> Var list option" where
  "getVarList n toks tok1 =
     (if tok1 < length toks
      then getVarList_loop n toks tok1 0 (str (toks ! tok1) \<noteq> ''struct'') []
      else None)"


text \<open>The same walk with, for each variable, the token at which its statement starts.\<close>

fun getVarList_decls_loop ::
  "nat \<Rightarrow> token list \<Rightarrow> nat \<Rightarrow> nat \<Rightarrow> bool \<Rightarrow> (nat \<times> Var) list \<Rightarrow> (nat \<times> Var) list option" where
  "getVarList_decls_loop 0 toks tok indentlevel pr decls = None"
| "getVarList_decls_loop (Suc n) toks tok indentlevel pr decls =
     (case getVarList_body n toks tok indentlevel pr of
        None \<Rightarrow> None
      | Some Break \<Rightarrow> Some decls
      | Some (Continue tok' indentlevel' priv' var) \<Rightarrow>
          (let decls' = (case var of None \<Rightarrow> decls | Some v \<Rightarrow> (tok', v) # decls)
           in case tok_next toks tok' of
                Null \<Rightarrow> Some decls'
              | Tok t \<Rightarrow> getVarList_decls_loop n toks t indentlevel' priv' decls'))"

definition getVarList_decls :: "nat \<Rightarrow> token list \<Rightarrow> nat \<Rightarrow> (nat \<times> Var) list option" where
  "getVarList_decls n toks tok1 =
     (if tok1 < length toks
      then getVarList_decls_loop n toks tok1 0 (str (toks ! tok1) \<noteq> ''struct'') []
      else None)"

text \<open>The brackets of a token list are linked forward when every \<^verbatim>\<open>{\<close> and every
  \<^verbatim>\<open>(\<close> has a partner, which comes later in the list.\<close>

definition links_forward :: "token list \<Rightarrow> bool" where
  "links_forward toks =
     list_all (\<lambda>i. str (toks ! i) \<in> set [''{'', ''(''] \<longrightarrow>
                  (case link (toks ! i) of Null \<Rightarrow> False | Tok j \<Rightarrow> i < j \<and> j < length toks))
              [0..<length toks]"

lemma links_forwardD:
  "links_forward toks \<Longrightarrow> i < length toks \<Longrightarrow> str (toks ! i) = ''{'' \<or> str (toks ! i) = ''(''
   \<Longrightarrow> link (toks ! i) = Tok j \<Longrightarrow> i < j"
  by (auto simp: links_forward_def list_all_iff)

lemma links_forward_partner:
  assumes "links_forward toks" "i < length toks" "str (toks ! i) = ''{''"
  obtains j where "link (toks ! i) = Tok j" "i < j" "j < length toks"
proof -
  from assms have "case link (toks ! i) of Null \<Rightarrow> False | Tok j \<Rightarrow> i < j \<and> j < length toks"
    by (simp add: links_forward_def list_all_iff)
  then show ?thesis by (cases "link (toks ! i)") (auto intro: that)
qed

lemma deref_Some: "deref toks p = Some i \<longleftrightarrow> p = Tok i \<and> i < length toks"
  by (auto simp: deref_def split: ptr.splits)

lemma tok_next_Tok: "tok_next toks i = Tok j \<longleftrightarrow> j = Suc i \<and> Suc i < length toks"
  by (auto simp: tok_next_def)

lemma published_loop_forward:
  "published_loop n toks tok = Some (Tok t) \<Longrightarrow> links_forward toks \<Longrightarrow> tok < length toks
   \<Longrightarrow> tok \<le> t"
proof (induction n arbitrary: tok)
  case 0
  then show ?case by simp
next
  case (Suc n)
  from Suc.prems(1) obtain u where
    u: "deref toks (if str (toks ! tok) = ''{'' then link (toks ! tok) else Tok tok) = Some u"
    by (auto split: option.splits)
  have tu: "tok \<le> u" and ul: "u < length toks"
    using u links_forwardD[OF Suc.prems(2,3)]
    by (auto simp: deref_Some split: if_splits dest!: less_imp_le)
  show ?case
  proof (cases "Match toks (tok_next toks u) [pAlt [''private:'', ''protected:'', ''public:'']]")
    case True
    with Suc.prems(1) u tu show ?thesis by simp
  next
    case False
    with Suc.prems(1) u obtain u' where u': "tok_next toks u = Tok u'"
      and r: "published_loop n toks u' = Some (Tok t)"
      by (auto split: ptr.splits)
    from u' have "u' = Suc u" "u' < length toks" by (auto simp: tok_next_Tok)
    with Suc.IH[OF r Suc.prems(2)] tu show ?thesis by simp
  qed
qed

lemma statement_var_priv: "statement_var toks tok pr = Some (Some v) \<Longrightarrow> priv v = pr"
  by (auto simp: statement_var_def Let_def split: option.splits if_splits prod.splits)

lemma getVarList_body_cases:
  assumes "getVarList_body n toks tok lvl pr = Some (Continue t lvl' pr' vo)"
  obtains (plain) "t = tok" "vo = None"
        | (published) "published_loop n toks tok = Some (Tok t)" "vo = None"
        | (statement) "t = tok" "statement_var toks tok pr' = Some vo"
  using assms
  by (auto simp: getVarList_body_def Let_def split: if_splits option.splits ptr.splits)

lemma getVarList_loop_decls:
  "getVarList_loop n toks tok lvl pr (map snd acc)
     = map_option (map snd) (getVarList_decls_loop n toks tok lvl pr acc)"
proof (induction n arbitrary: tok lvl pr acc)
  case 0
  show ?case by simp
next
  case (Suc n)
  show ?case
  proof (cases "getVarList_body n toks tok lvl pr")
    case None
    then show ?thesis by simp
  next
    case (Some r)
    show ?thesis
    proof (cases r)
      case Break
      with Some show ?thesis by simp
    next
      case (Continue t lvl' pr' vo)
      define acc' where "acc' = (case vo of None \<Rightarrow> acc | Some v \<Rightarrow> (t, v) # acc)"
      have m: "(case vo of None \<Rightarrow> map snd acc | Some v \<Rightarrow> v # map snd acc) = map snd acc'"
        by (simp add: acc'_def split: option.split)
      show ?thesis
        using Some Continue Suc.IH[of _ lvl' pr' acc']
        by (simp add: m acc'_def[symmetric] split: ptr.split)
    qed
  qed
qed

definition later_first :: "(nat \<times> Var) list \<Rightarrow> bool" where
  "later_first ds = sorted_wrt (\<lambda>d e. fst e < fst d) ds"

definition declared_there :: "token list \<Rightarrow> nat \<times> Var \<Rightarrow> bool" where
  "declared_there toks d = (statement_var toks (fst d) (priv (snd d)) = Some (Some (snd d)))"

lemma getVarList_decls_loop_order:
  "getVarList_decls_loop n toks tok lvl pr acc = Some ds \<Longrightarrow> links_forward toks
   \<Longrightarrow> tok < length toks \<Longrightarrow> later_first acc \<Longrightarrow> \<forall>d\<in>set acc. fst d < tok
   \<Longrightarrow> list_all (declared_there toks) acc
   \<Longrightarrow> later_first ds \<and> list_all (declared_there toks) ds"
proof (induction n arbitrary: tok lvl pr acc)
  case 0
  then show ?case by simp
next
  case (Suc n)
  show ?case
  proof (cases "getVarList_body n toks tok lvl pr")
    case None
    with Suc.prems(1) show ?thesis by simp
  next
    case (Some r)
    show ?thesis
    proof (cases r)
      case Break
      with Some Suc.prems show ?thesis by simp
    next
      case (Continue t lvl' pr' vo)
      define acc' where "acc' = (case vo of None \<Rightarrow> acc | Some v \<Rightarrow> (t, v) # acc)"
      from Some Continue have b: "getVarList_body n toks tok lvl pr = Some (Continue t lvl' pr' vo)"
        by simp
      have tv: "tok \<le> t \<and> (\<forall>v. vo = Some v \<longrightarrow> t = tok \<and> declared_there toks (t, v))"
        using b
      proof (cases rule: getVarList_body_cases)
        case plain
        then show ?thesis by simp
      next
        case published
        with published_loop_forward[OF published(1) Suc.prems(2,3)] show ?thesis by simp
      next
        case statement
        with statement_var_priv[of toks tok pr'] show ?thesis
          by (simp add: declared_there_def)
      qed
      then have t: "tok \<le> t" and vo: "\<And>v. vo = Some v \<Longrightarrow> t = tok \<and> declared_there toks (t, v)"
        by blast+
      have 1: "later_first acc'"
        using Suc.prems(4,5) t vo by (auto simp: acc'_def later_first_def split: option.split)
      have 2: "list_all (declared_there toks) acc'"
        using Suc.prems(6) vo by (auto simp: acc'_def split: option.split)
      show ?thesis
      proof (cases "tok_next toks t")
        case Null
        with Suc.prems(1) b 1 2 show ?thesis by (simp add: acc'_def)
      next
        case (Tok u)
        then have u: "u = Suc t" "u < length toks" by (auto simp: tok_next_Tok)
        from Suc.prems(1) b Tok have r: "getVarList_decls_loop n toks u lvl' pr' acc' = Some ds"
          by (simp add: acc'_def)
        have 3: "\<forall>d\<in>set acc'. fst d < u"
          using Suc.prems(5) t u by (auto simp: acc'_def split: option.split)
        from Suc.IH[OF r Suc.prems(2) u(2) 1 3 2] show ?thesis .
      qed
    qed
  qed
qed

subsection \<open>getVarList returns\<close>

lemma published_loop_returns:
  "links_forward toks \<Longrightarrow> tok < length toks \<Longrightarrow> length toks - tok \<le> n
   \<Longrightarrow> \<exists>p. published_loop n toks tok = Some p"
proof (induction n arbitrary: tok)
  case 0
  then show ?case by simp
next
  case (Suc n)
  obtain u where u: "deref toks (if str (toks ! tok) = ''{'' then link (toks ! tok) else Tok tok) = Some u"
    and tu: "tok \<le> u" and ul: "u < length toks"
  proof (cases "str (toks ! tok) = ''{''")
    case True
    from links_forward_partner[OF Suc.prems(1,2) True] obtain j where
      "link (toks ! tok) = Tok j" "tok < j" "j < length toks" .
    with True show ?thesis by (intro that[of j]) (simp_all add: deref_Some)
  next
    case False
    with Suc.prems(2) show ?thesis by (intro that[of tok]) (simp_all add: deref_Some)
  qed
  show ?case
  proof (cases "Match toks (tok_next toks u) [pAlt [''private:'', ''protected:'', ''public:'']]")
    case True
    with u show ?thesis by simp
  next
    case False
    show ?thesis
    proof (cases "tok_next toks u")
      case Null
      with u False show ?thesis by simp
    next
      case (Tok u')
      then have "u' = Suc u" "u' < length toks" by (auto simp: tok_next_Tok)
      with Suc.prems(3) tu have "length toks - u' \<le> n" by simp
      from Suc.IH[OF Suc.prems(1) \<open>u' < length toks\<close> this] u False Tok show ?thesis by simp
    qed
  qed
qed

lemma skip_word_valid:
  assumes "skip_word toks w p = (b, q)" and "p = Tok i" and "i < length toks"
    and "str (last toks) \<noteq> w"
  shows "\<exists>j. q = Tok j \<and> j < length toks"
proof (cases "str (toks ! i) = w")
  case True
  from assms(3) have "toks \<noteq> []" by auto
  then have "last toks = toks ! (length toks - 1)" by (rule last_conv_nth)
  with True assms(4) have "i \<noteq> length toks - 1" by auto
  with assms(3) have "Suc i < length toks" by simp
  with assms(1,2,3) True show ?thesis by (auto simp: skip_word_def tok_next_def)
next
  case False
  with assms(1,2,3) show ?thesis by (auto simp: skip_word_def)
qed

lemma statement_var_returns:
  assumes "Suc tok < length toks"
    and "str (last toks) \<notin> set [''const'', ''static'', ''mutable'']"
  shows "\<exists>r. statement_var toks tok pr = Some r"
proof -
  from assms(1) have d: "deref toks (tok_next toks tok) = Some (Suc tok)"
    by (simp add: deref_def tok_next_def)
  obtain c1 n1 where 1: "skip_word toks ''const'' (Tok (Suc tok)) = (c1, n1)"
    by (cases "skip_word toks ''const'' (Tok (Suc tok))")
  from skip_word_valid[OF 1 refl assms(1)] assms(2) obtain a where a: "n1 = Tok a" "a < length toks"
    by auto
  obtain st n2 where 2: "skip_word toks ''static'' n1 = (st, n2)"
    by (cases "skip_word toks ''static'' n1")
  from skip_word_valid[OF 2 a] assms(2) obtain b where b: "n2 = Tok b" "b < length toks"
    by auto
  obtain mu n3 where 3: "skip_word toks ''mutable'' n2 = (mu, n3)"
    by (cases "skip_word toks ''mutable'' n2")
  from skip_word_valid[OF 3 b] assms(2) obtain c where c: "n3 = Tok c" "c < length toks"
    by auto
  then have dc: "deref toks n3 = Some c" by (simp add: deref_Some)
  obtain c2 n4 where 4: "skip_word toks ''const'' n3 = (c2, n4)"
    by (cases "skip_word toks ''const'' n3")
  obtain vn cl where 5: "declared_name toks n4 = (vn, cl)"
    by (cases "declared_name toks n4")
  show ?thesis
    unfolding statement_var_def by (simp add: d 1 2 3 dc 4 5)
qed

lemma getVarList_body_returns:
  assumes "links_forward toks" and "tok < length toks" and "length toks - tok \<le> n"
    and "str (last toks) \<notin> set [''const'', ''static'', ''mutable'']"
  shows "\<exists>r. getVarList_body n toks tok lvl pr = Some r"
proof (cases "tok_next toks tok = Null")
  case True
  then show ?thesis by (simp add: getVarList_body_def)
next
  case False
  then have s: "Suc tok < length toks" by (simp add: tok_next_def split: if_splits)
  from published_loop_returns[OF assms(1,2,3)] obtain p where
    p: "published_loop n toks tok = Some p" ..
  have sv: "\<exists>r. statement_var toks tok q = Some r" for q
    by (rule statement_var_returns[OF s assms(4)])
  have *: "\<exists>r. map_option (Continue tok l q) (statement_var toks tok q) = Some r" for l q
    using sv[of q] by auto
  show ?thesis
    unfolding getVarList_body_def Let_def
    using False p * by (auto split: ptr.split)
qed

lemma getVarList_decls_loop_returns:
  "links_forward toks \<Longrightarrow> tok < length toks \<Longrightarrow> length toks - tok < n
   \<Longrightarrow> str (last toks) \<notin> set [''const'', ''static'', ''mutable'']
   \<Longrightarrow> \<exists>ds. getVarList_decls_loop n toks tok lvl pr acc = Some ds"
proof (induction n arbitrary: tok lvl pr acc)
  case 0
  then show ?case by simp
next
  case (Suc n)
  from Suc.prems(3) have "length toks - tok \<le> n" by simp
  from getVarList_body_returns[OF Suc.prems(1,2) this Suc.prems(4)] obtain r where
    r: "getVarList_body n toks tok lvl pr = Some r" ..
  show ?case
  proof (cases r)
    case Break
    with r show ?thesis by simp
  next
    case (Continue t lvl' pr' vo)
    with r have b: "getVarList_body n toks tok lvl pr = Some (Continue t lvl' pr' vo)" by simp
    then have t: "tok \<le> t"
    proof (cases rule: getVarList_body_cases)
      case published
      from published_loop_forward[OF published(1) Suc.prems(1,2)] show ?thesis .
    qed simp_all
    show ?thesis
    proof (cases "tok_next toks t")
      case Null
      with b show ?thesis by simp
    next
      case (Tok u)
      then have u: "u = Suc t" "u < length toks" by (auto simp: tok_next_Tok)
      with t Suc.prems(3) have "length toks - u < n" by simp
      from Suc.IH[OF Suc.prems(1) u(2) this Suc.prems(4)] b Tok show ?thesis by simp
    qed
  qed
qed

text \<open>
  C1 (\<^verbatim>\<open>getVarList\<close> returns the member variables in the order of their declarations).
  The claim fails: \<^verbatim>\<open>getVarList\<close> puts every new \<^verbatim>\<open>Var\<close> in front of the list
  (\<^verbatim>\<open>new Var(..., varlist)\<close>), so the list is in the reverse order. For
  \<^verbatim>\<open>class A { int x ; int y ; } ;\<close> the first \<^verbatim>\<open>Var\<close> of the list is \<^verbatim>\<open>y\<close>, the
  member that is declared last.
\<close>

theorem getVarList_declaration_order_counterexample:
  "getVarList 12
     (tokenize [''class'', ''A'', ''{'', ''int'', ''x'', '';'', ''int'', ''y'', '';'', ''}'', '';'']) 0
   = Some [\<lparr>name = ''y'', init = False, priv = True, isMutable = False, isStatic = False,
              isClass = False\<rparr>,
           \<lparr>name = ''x'', init = False, priv = True, isMutable = False, isStatic = False,
              isClass = False\<rparr>]"
  by code_simp

text \<open>
  C1, amended: \<^verbatim>\<open>getVarList\<close> returns the variables for which it makes a \<^verbatim>\<open>Var\<close> in
  the reverse order of their declarations. On a token list in which every \<^verbatim>\<open>{\<close> and
  \<^verbatim>\<open>(\<close> is linked to a later partner and whose last token is none of \<^verbatim>\<open>const\<close>,
  \<^verbatim>\<open>static\<close>, \<^verbatim>\<open>mutable\<close>, the walk returns within \<open>length toks + 1\<close> rounds, and the
  list it returns is \<open>map snd ds\<close> for the list \<open>ds\<close> of the walk that also records
  where each \<^verbatim>\<open>Var\<close> is made: every \<open>(t, v)\<close> of \<open>ds\<close> is the variable \<open>v\<close> that the
  statement after token \<open>t\<close> declares; of two entries of the list the earlier one has the
  later token; and no entry has a later token than the first. So the first \<^verbatim>\<open>Var\<close> of
  the list is the one whose declaration is the last among those for which a \<^verbatim>\<open>Var\<close> is
  made, and a \<^verbatim>\<open>Var\<close> whose declaration is later precedes one whose declaration is
  earlier. (A member for which \<^verbatim>\<open>getVarList\<close> makes no \<^verbatim>\<open>Var\<close>, such as one of a
  \<^verbatim>\<open>__published:\<close> section, is not in the list.)
\<close>

theorem getVarList_reverse_declaration_order:
  assumes "links_forward toks" and "tok1 < length toks"
    and "str (last toks) \<notin> set [''const'', ''static'', ''mutable'']"
    and "length toks < n"
  shows "\<exists>ds. getVarList n toks tok1 = Some (map snd ds)
              \<and> getVarList_decls n toks tok1 = Some ds
              \<and> later_first ds \<and> (\<forall>d\<in>set ds. fst d \<le> fst (hd ds))
              \<and> list_all (declared_there toks) ds"
proof -
  let ?pr = "str (toks ! tok1) \<noteq> ''struct''"
  from assms(2,4) have "length toks - tok1 < n" by simp
  from getVarList_decls_loop_returns[OF assms(1,2) this assms(3)]
  obtain ds where ds: "getVarList_decls_loop n toks tok1 0 ?pr [] = Some ds" by blast
  with getVarList_loop_decls[of n toks tok1 0 ?pr "[]"]
  have "getVarList_loop n toks tok1 0 ?pr [] = Some (map snd ds)" by simp
  with assms(2) have g: "getVarList n toks tok1 = Some (map snd ds)"
    by (simp add: getVarList_def)
  from getVarList_decls_loop_order[OF ds assms(1,2)]
  have o: "later_first ds" "list_all (declared_there toks) ds"
    by (simp_all add: later_first_def)
  have "\<forall>d\<in>set ds. fst d \<le> fst (hd ds)"
  proof (cases ds)
    case Nil
    then show ?thesis by simp
  next
    case (Cons d ds')
    with o(1) show ?thesis by (auto simp: later_first_def dest: less_imp_le)
  qed
  with g ds o assms(2) show ?thesis by (simp add: getVarList_decls_def)
qed

theorem getVarList_reverse_declaration_order_witness:
  "\<exists>ds. getVarList 14 (tokenize [''struct'', ''S'', ''{'', ''char'', ''*'', ''p'', '';'', ''private:'',
            ''int'', ''n'', '';'', ''}'', '';'']) 0 = Some (map snd ds)
        \<and> map (name \<circ> snd) ds = [''n'', ''p'']
        \<and> getVarList_decls 14 (tokenize [''struct'', ''S'', ''{'', ''char'', ''*'', ''p'', '';'',
             ''private:'', ''int'', ''n'', '';'', ''}'', '';'']) 0 = Some ds
        \<and> later_first ds \<and> (\<forall>d\<in>set ds. fst d \<le> fst (hd ds))
        \<and> list_all (declared_there (tokenize [''struct'', ''S'', ''{'', ''char'', ''*'', ''p'', '';'',
             ''private:'', ''int'', ''n'', '';'', ''}'', '';''])) ds"
proof -
  let ?toks = "tokenize [''struct'', ''S'', ''{'', ''char'', ''*'', ''p'', '';'', ''private:'',
       ''int'', ''n'', '';'', ''}'', '';'']"
  have 1: "links_forward ?toks" by code_simp
  have 2: "0 < length ?toks" by code_simp
  have 3: "str (last ?toks) \<notin> set [''const'', ''static'', ''mutable'']" by code_simp
  have 4: "length ?toks < 14" by code_simp
  have 5: "map_option (map name) (getVarList 14 ?toks 0) = Some [''n'', ''p'']" by code_simp
  from getVarList_reverse_declaration_order[OF 1 2 3 4] obtain ds where
    ds: "getVarList 14 ?toks 0 = Some (map snd ds)"
      "getVarList_decls 14 ?toks 0 = Some ds" "later_first ds"
      "\<forall>d\<in>set ds. fst d \<le> fst (hd ds)" "list_all (declared_there ?toks) ds"
    by blast
  from 5 ds(1) have "map (name \<circ> snd) ds = [''n'', ''p'']" by simp
  with ds show ?thesis by (intro exI[of _ ds] conjI)
qed

section \<open>createSymbolDatabase\<close>

text \<open>
  A \<^verbatim>\<open>SpaceInfo *\<close> is the index of the \<^verbatim>\<open>SpaceInfo\<close> in the list \<open>spaceInfos\<close> of
  all that were made with \<^verbatim>\<open>new SpaceInfo\<close>, in the order in which they were made.
  \<^verbatim>\<open>spaceInfoMMap\<close> is the list of the entries of the \<^verbatim>\<open>std::multimap\<close> in the order
  of its iteration: ascending by key, entries of the same key in the order of their
  insertion (\<open>mmap_insert\<close>). \<^verbatim>\<open>std::string\<close> compares byte by byte, as the order of
  \<open>string\<close> does.
\<close>

datatype AccessControl = Public | Protected | Private

datatype Type = Constructor | CopyConstructor | OperatorEqual | Destructor | Function

record Func =
  tokenDef :: nat
  token :: nat
  access :: AccessControl
  hasBody :: bool
  isInline :: bool
  isConst :: bool
  isVirtual :: bool
  isStatic :: bool
  isFriend :: bool
  isOperator :: bool
  type :: Type

record SpaceInfo =
  isNamespace :: bool
  className :: string
  classDef :: nat
  classStart :: nat
  classEnd :: ptr
  numConstructors :: nat
  functionList :: "Func list"
  varlist :: "Var list"
  derivedFrom :: "string list"
  nest :: "nat option"
  access :: AccessControl

record CheckClass =
  hasSymbolDatabase :: bool
  spaceInfos :: "SpaceInfo list"
  spaceInfoMMap :: "(string \<times> nat) list"

definition CheckClass_new :: CheckClass where
  "CheckClass_new = \<lparr>hasSymbolDatabase = False, spaceInfos = [], spaceInfoMMap = []\<rparr>"

fun mmap_insert :: "string \<Rightarrow> nat \<Rightarrow> (string \<times> nat) list \<Rightarrow> (string \<times> nat) list" where
  "mmap_insert k v [] = [(k, v)]"
| "mmap_insert k v (e # m) = (if k < fst e then (k, v) # e # m else e # mmap_insert k v m)"

function qualified_name :: "token list \<Rightarrow> ptr \<Rightarrow> string \<Rightarrow> string \<times> ptr" where
  "qualified_name toks tok2 derived =
     (case tok2 of
        Null \<Rightarrow> (derived, Null)
      | Tok i \<Rightarrow>
          if Match toks tok2 [pVar, pLit ''::'']
          then qualified_name toks (tokAt toks i 2) (derived @ str (toks ! i) @ '' :: '')
          else (derived, tok2))"
  by pat_completeness auto
termination
  by (relation "measure (\<lambda>(toks, tok2, derived). case tok2 of Null \<Rightarrow> 0 | Tok i \<Rightarrow> Suc (length toks - i))")
     (auto simp: tokAt_def Let_def Match.simps split: ptr.splits if_splits)


declare qualified_name.simps [simp del]

lemma qualified_name_Null [simp]: "qualified_name toks Null d = (d, Null)"
  by (simp add: qualified_name.simps)

lemma qualified_name_Tok:
  "qualified_name toks (Tok i) d =
     (if Match toks (Tok i) [pVar, pLit ''::'']
      then qualified_name toks (tokAt toks i 2) (d @ str (toks ! i) @ '' :: '')
      else (d, Tok i))"
  by (subst qualified_name.simps) simp

lemma qualified_name_forward:
  "qualified_name toks p d = (s, q) \<Longrightarrow> p = Tok i \<Longrightarrow> q = Null \<or> (\<exists>j. q = Tok j \<and> i \<le> j)"
proof (induction toks p d arbitrary: i rule: qualified_name.induct)
  case (1 toks tok2 derived)
  show ?case
  proof (cases "Match toks tok2 [pVar, pLit ''::'']")
    case False
    with "1.prems" show ?thesis by (auto simp: qualified_name_Tok)
  next
    case True
    show ?thesis
    proof (cases "tokAt toks i 2")
      case Null
      with True "1.prems" show ?thesis
        by (simp add: qualified_name_Tok)
    next
      case (Tok k)
      then have k: "k = i + 2" by (auto simp: tokAt_def Let_def split: if_splits)
      from True "1.prems"
      have "qualified_name toks (tokAt toks i 2) (derived @ str (toks ! i) @ '' :: '') = (s, q)"
        by (simp add: qualified_name_Tok)
      from "1.IH"[OF "1.prems"(2) True this Tok] k show ?thesis
        by auto
    qed
  qed
qed

lemma qualified_name_base:
  assumes "qualified_name toks (tokAt toks i 2) [] = (d, p)" and "deref toks p = Some j"
  shows "i < j"
proof -
  from assms(2) have p: "p = Tok j" by (simp add: deref_Some)
  with assms(1) obtain k where k: "tokAt toks i 2 = Tok k"
    by (cases "tokAt toks i 2") auto
  then have "i < k" by (auto simp: tokAt_def Let_def split: if_splits)
  with qualified_name_forward[OF assms(1)[unfolded k] refl] p show ?thesis by auto
qed

text \<open>The walk from the class name to the \<^verbatim>\<open>{\<close> of the class body, which collects the
  names of the base classes.\<close>

function class_start :: "token list \<Rightarrow> ptr \<Rightarrow> string list \<Rightarrow> (ptr \<times> string list) option" where
  "class_start toks tok2 derived =
     (case tok2 of
        Null \<Rightarrow> Some (Null, derived)
      | Tok i \<Rightarrow>
          if length toks \<le> i then None
          else if str (toks ! i) = ''{'' then Some (tok2, derived)
          else if Match toks tok2 [pAlt ['':'', '',''], pAlt [''public'', ''protected'', ''private'']]
          then (case qualified_name toks (tokAt toks i 2) [] of
                  (d, p) \<Rightarrow>
                    (case deref toks p of
                       None \<Rightarrow> None
                     | Some j \<Rightarrow> class_start toks (tok_next toks j) (derived @ [d @ str (toks ! j)])))
          else class_start toks (tok_next toks i) derived)"
  by pat_completeness auto
termination
  by (relation "measure (\<lambda>(toks, tok2, derived). case tok2 of Null \<Rightarrow> 0 | Tok i \<Rightarrow> Suc (length toks - i))")
     (auto simp del: qualified_name.simps simp: tok_next_def
           dest!: qualified_name_base sym[of "(_, _)" "qualified_name _ _ _"])

declare class_start.simps [simp del]

text \<open>The function pattern of the class body.\<close>

definition function_end :: "token list \<Rightarrow> nat \<Rightarrow> ptr option" where
  "function_end toks tok =
     (if str (toks ! tok) = ''operator'' then link_of toks (tokAt toks tok 2)
      else link_of toks (tok_next toks tok))"

definition is_function :: "token list \<Rightarrow> nat \<Rightarrow> bool option" where
  "is_function toks tok =
     (if Match toks (Tok tok) [pVar, pLit ''(''] \<or> Match toks (Tok tok) [pLit ''operator'', pAny, pLit ''('']
      then (case str_of toks (tok_previous toks tok) of
              None \<Rightarrow> None
            | Some p \<Rightarrow>
                if p \<noteq> ''::''
                then map_option
                       (\<lambda>e. Match toks e [pLit '')'', pOpt [''const''], pAlt ['';'', ''{'', ''='', '':'']])
                       (function_end toks tok)
                else Some False)
      else Some False)"

text \<open>The kind of a function that is no operator function.\<close>

definition function_type :: "token list \<Rightarrow> nat \<Rightarrow> string \<Rightarrow> Type option" where
  "function_type toks tdef cname =
     (if str (toks ! tdef) = cname
      then (case str_of toks (tok_previous toks tdef) of
              None \<Rightarrow> None
            | Some p \<Rightarrow>
                if p = ''~'' then Some Destructor
                else if Match toks (Tok tdef)
                          [pVar, pLit ''('', pLit ''const'', pVar, pLit ''&'', pOptVar, pLit '')'']
                        \<and> strAt toks tdef 3 = cname
                then Some CopyConstructor
                else Some Constructor)
      else Some Function)"

text \<open>"look for end of previous statement": \<open>(isVirtual, isStatic, isFriend)\<close>.\<close>

function modifier_scan :: "token list \<Rightarrow> nat \<Rightarrow> bool \<times> bool \<times> bool" where
  "modifier_scan toks tok1 =
     (case tok_previous toks tok1 of
        Null \<Rightarrow> (False, False, False)
      | Tok p \<Rightarrow>
          if Match toks (Tok p) [pAlt ['';'', ''}'', ''{'', ''public:'', ''protected:'', ''private:'']]
          then (False, False, False)
          else if str (toks ! p) = ''virtual'' then (True, False, False)
          else if str (toks ! p) = ''static'' then (False, True, False)
          else if str (toks ! p) = ''friend'' then (False, False, True)
          else modifier_scan toks p)"
  by pat_completeness auto
termination
  by (relation "measure (\<lambda>(toks, tok1). tok1)") (auto simp: tok_previous_def split: if_splits)

declare modifier_scan.simps [simp del]

text \<open>\<^verbatim>\<open>while (found->next()->str() != "(") found = found->next();\<close> and
  \<^verbatim>\<open>while (tok->str() != "{") tok = tok->next();\<close>\<close>

function goto_paren :: "token list \<Rightarrow> nat \<Rightarrow> nat option" where
  "goto_paren toks found =
     (case deref toks (tok_next toks found) of
        None \<Rightarrow> None
      | Some nx \<Rightarrow> if str (toks ! nx) = ''('' then Some found else goto_paren toks nx)"
  by pat_completeness auto
termination
  by (relation "measure (\<lambda>(toks, found). length toks - found)")
     (auto simp: deref_Some tok_next_Tok)

declare goto_paren.simps [simp del]

function goto_brace :: "token list \<Rightarrow> ptr \<Rightarrow> nat option" where
  "goto_brace toks tok =
     (case deref toks tok of
        None \<Rightarrow> None
      | Some t \<Rightarrow> if str (toks ! t) = ''{'' then Some t else goto_brace toks (tok_next toks t))"
  by pat_completeness auto
termination
  by (relation "measure (\<lambda>(toks, tok). case tok of Null \<Rightarrow> 0 | Tok i \<Rightarrow> Suc (length toks - i))")
     (auto simp: deref_Some tok_next_def)

declare goto_brace.simps [simp del]

text \<open>The search for the implementation of a function that is only declared in the
  class body: the loop over the matches of the search pattern, and the loop over the
  enclosing scopes. The result is \<^verbatim>\<open>function.token\<close> of the implementation, if one is
  found.\<close>

fun find_body ::
  "nat \<Rightarrow> token list \<Rightarrow> pslot list \<Rightarrow> ptr \<Rightarrow> ptr \<Rightarrow> string \<Rightarrow> nat \<Rightarrow> ptr \<Rightarrow> nat option option" where
  "find_body 0 toks searchPattern end funcArgs classPath depth found = None"
| "find_body (Suc n) toks searchPattern end funcArgs classPath depth found =
     (case findmatch toks found searchPattern end of
        Null \<Rightarrow> Some None
      | Tok f \<Rightarrow>
          (case str_of toks (tok_previous toks f) of
             None \<Rightarrow> None
           | Some p \<Rightarrow>
               if p = ''::'' then Some None
               else (case goto_paren toks f of
                  None \<Rightarrow> None
                | Some g \<Rightarrow>
                    (case link_of toks (tok_next toks g) of
                       None \<Rightarrow> None
                     | Some l \<Rightarrow>
                         if Match toks l [pLit '')'', pOpt [''const''], pLit ''{'']
                         then (case argsMatch toks funcArgs (tokAt toks g 2) classPath depth of
                                 None \<Rightarrow> None
                               | Some True \<Rightarrow> Some (Some g)
                               | Some False \<Rightarrow>
                                   (case goto_brace toks (Tok g) of
                                      None \<Rightarrow> None
                                    | Some b \<Rightarrow>
                                        find_body n toks searchPattern end funcArgs classPath depth
                                          (link (toks ! b))))
                         else find_body n toks searchPattern end funcArgs classPath depth (Tok g)))))"

fun find_implementation ::
  "nat \<Rightarrow> token list \<Rightarrow> SpaceInfo list \<Rightarrow> nat \<Rightarrow> ptr \<Rightarrow> string \<Rightarrow> nat option \<Rightarrow> string \<Rightarrow> nat
   \<Rightarrow> nat option option" where
  "find_implementation 0 toks infos top_info funcArgs classPattern nst classPath depth = None"
| "find_implementation (Suc n) toks infos top_info funcArgs classPattern nst classPath depth =
     (case nst of
        None \<Rightarrow> Some None
      | Some ni \<Rightarrow>
          (let classPath' = className (infos ! ni) @ '' :: '' @ classPath;
               searchPattern = litPattern (classPath' @ classPattern);
               nst' = nest (infos ! ni);
               end = (case nst' of None \<Rightarrow> Null | Some e \<Rightarrow> classEnd (infos ! e))
           in case find_body n toks searchPattern end funcArgs classPath' (Suc depth)
                     (classEnd (infos ! top_info)) of
                None \<Rightarrow> None
              | Some (Some t) \<Rightarrow> Some (Some t)
              | Some None \<Rightarrow>
                  find_implementation n toks infos top_info funcArgs classPattern nst' classPath'
                    (Suc depth)))"

text \<open>The function that is declared at \<open>tok\<close> in the class \<open>infos ! i\<close>, and the token
  from which the sweep goes on.\<close>

definition parse_function ::
  "nat \<Rightarrow> token list \<Rightarrow> nat \<Rightarrow> nat \<Rightarrow> SpaceInfo list \<Rightarrow> (Func \<times> ptr) option" where
  "parse_function n toks tok i infos =
     (let oper = (str (toks ! tok) = ''operator'') in
      case (if oper then deref toks (tok_next toks tok) else Some tok) of
        None \<Rightarrow> None
      | Some tdef \<Rightarrow>
      (case (if oper then Some (if str (toks ! tdef) = ''='' then OperatorEqual else Function)
             else function_type toks tdef (className (infos ! i))) of
        None \<Rightarrow> None
      | Some ty \<Rightarrow>
      (case modifier_scan toks tok of (virt, stat, frnd) \<Rightarrow>
      (case link_of toks (tok_next toks tdef) of
        None \<Rightarrow> None
      | Some nxt \<Rightarrow>
      (case next_of toks nxt of
        None \<Rightarrow> None
      | Some nn \<Rightarrow>
      (case str_of toks nn of
        None \<Rightarrow> None
      | Some cs \<Rightarrow>
          (let func = \<lparr>tokenDef = tdef, token = tdef, access = SpaceInfo.access (infos ! i),
                       hasBody = False, isInline = False, isConst = (cs = ''const''),
                       isVirtual = virt, isStatic = stat, isFriend = frnd, isOperator = oper,
                       type = ty\<rparr>
           in if Match toks nxt [pLit '')'', pOpt [''const''], pLit '';'']
                 \<or> Match toks nxt [pLit '')'', pOpt [''const''], pLit ''='', pLit ''0'', pLit '';'']
              then (case find_implementation n toks infos i (tokAt toks tdef 2)
                           (if oper then ''operator '' @ str (toks ! tdef) @ '' (''
                            else str (toks ! tdef) @ '' ('')
                           (Some i) [] 0 of
                      None \<Rightarrow> None
                    | Some None \<Rightarrow> Some (func, nn)
                    | Some (Some t) \<Rightarrow> Some (func\<lparr>token := t, hasBody := True\<rparr>, nn))
              else (case goto_brace toks nn of
                      None \<Rightarrow> None
                    | Some b \<Rightarrow> Some (func\<lparr>isInline := True, hasBody := True\<rparr>, link (toks ! b))))))))))"

definition is_constructor :: "Func \<Rightarrow> bool" where
  "is_constructor f = (type f = Constructor \<or> type f = CopyConstructor)"

text \<open>\<^verbatim>\<open>info->numConstructors++\<close> for a constructor, and
  \<^verbatim>\<open>info->functionList.push_back(function)\<close>.\<close>

definition count_constructor :: "nat \<Rightarrow> Func \<Rightarrow> CheckClass \<Rightarrow> CheckClass" where
  "count_constructor i func st =
     (if is_constructor func
      then st\<lparr>spaceInfos := (spaceInfos st)
             [i := (spaceInfos st ! i)\<lparr>numConstructors := Suc (numConstructors (spaceInfos st ! i))\<rparr>]\<rparr>
      else st)"

definition push_back_function :: "nat \<Rightarrow> Func \<Rightarrow> CheckClass \<Rightarrow> CheckClass" where
  "push_back_function i func st =
     st\<lparr>spaceInfos := (spaceInfos st)
          [i := (spaceInfos st ! i)\<lparr>functionList := functionList (spaceInfos st ! i) @ [func]\<rparr>]\<rparr>"

definition set_access :: "nat \<Rightarrow> AccessControl \<Rightarrow> CheckClass \<Rightarrow> CheckClass" where
  "set_access i a st =
     st\<lparr>spaceInfos := (spaceInfos st)[i := (spaceInfos st ! i)\<lparr>SpaceInfo.access := a\<rparr>]\<rparr>"

text \<open>"Locate next class": the new \<^verbatim>\<open>SpaceInfo\<close> gets the next free address, which is its
  index in \<open>spaceInfos\<close>.\<close>

definition new_scope ::
  "nat \<Rightarrow> token list \<Rightarrow> nat \<Rightarrow> nat option \<Rightarrow> CheckClass \<Rightarrow> (ptr \<times> nat option \<times> CheckClass) option" where
  "new_scope n toks tok info st =
     (case class_start toks (tokAt toks tok 2) [] of
        None \<Rightarrow> None
      | Some (tok2, derived) \<Rightarrow>
          (case deref toks tok2 of
             None \<Rightarrow> None
           | Some start \<Rightarrow>
               (case getVarList n toks tok of
                  None \<Rightarrow> None
                | Some vars \<Rightarrow>
                    (let new_info =
                           \<lparr>isNamespace = (str (toks ! tok) = ''namespace''),
                            className = strAt toks tok 1,
                            classDef = tok,
                            classStart = start,
                            classEnd = link (toks ! start),
                            numConstructors = 0,
                            functionList = [],
                            varlist = vars,
                            derivedFrom = derived,
                            nest = info,
                            access = (if str (toks ! tok) = ''struct'' then Public else Private)\<rparr>;
                         a = length (spaceInfos st)
                     in Some (Tok start, Some a,
                              st\<lparr>spaceInfos := spaceInfos st @ [new_info],
                                 spaceInfoMMap :=
                                   mmap_insert (className new_info) a (spaceInfoMMap st)\<rparr>)))))"

text \<open>"What section are we in".\<close>

definition access_label :: "string \<Rightarrow> AccessControl option" where
  "access_label s =
     (if s = ''private:'' then Some Private
      else if s = ''protected:'' then Some Protected
      else if s = ''public:'' then Some Public
      else None)"

text \<open>One round of the sweep over the tokens: the token at which the round ends, the
  current scope and the database. \<open>class_member\<close> is the round for a token in the body
  of the class \<open>spaceInfos st ! i\<close>.\<close>

definition class_member ::
  "nat \<Rightarrow> token list \<Rightarrow> nat \<Rightarrow> nat \<Rightarrow> CheckClass \<Rightarrow> (ptr \<times> nat option \<times> CheckClass) option" where
  "class_member n toks tok i st =
     (if Tok tok = classEnd (spaceInfos st ! i) then Some (Tok tok, nest (spaceInfos st ! i), st)
      else (case access_label (str (toks ! tok)) of
         Some a \<Rightarrow> Some (Tok tok, Some i, set_access i a st)
       | None \<Rightarrow>
           (case is_function toks tok of
              None \<Rightarrow> None
            | Some False \<Rightarrow> Some (Tok tok, Some i, st)
            | Some True \<Rightarrow>
                (case parse_function n toks tok i (spaceInfos st) of
                   None \<Rightarrow> None
                 | Some (func, tok') \<Rightarrow>
                     Some (tok', Some i, push_back_function i func (count_constructor i func st))))))"

definition createSymbolDatabase_body ::
  "nat \<Rightarrow> token list \<Rightarrow> nat \<Rightarrow> nat option \<Rightarrow> CheckClass \<Rightarrow> (ptr \<times> nat option \<times> CheckClass) option" where
  "createSymbolDatabase_body n toks tok info st =
     (if Match toks (Tok tok) [pAlt [''class'', ''struct'', ''namespace''], pVar, pAlt [''{'', '':'']]
      then new_scope n toks tok info st
      else (case info of
         None \<Rightarrow> Some (Tok tok, info, st)
       | Some i \<Rightarrow>
           if isNamespace (spaceInfos st ! i) then Some (Tok tok, info, st)
           else class_member n toks tok i st))"

fun createSymbolDatabase_loop ::
  "nat \<Rightarrow> token list \<Rightarrow> nat \<Rightarrow> nat option \<Rightarrow> CheckClass \<Rightarrow> CheckClass option" where
  "createSymbolDatabase_loop 0 toks tok info st = None"
| "createSymbolDatabase_loop (Suc n) toks tok info st =
     (case createSymbolDatabase_body n toks tok info st of
        None \<Rightarrow> None
      | Some (tok', info', st') \<Rightarrow>
          (case next_of toks tok' of
             None \<Rightarrow> None
           | Some Null \<Rightarrow> Some st'
           | Some (Tok t) \<Rightarrow> createSymbolDatabase_loop n toks t info' st'))"

definition createSymbolDatabase :: "nat \<Rightarrow> token list \<Rightarrow> CheckClass \<Rightarrow> CheckClass option" where
  "createSymbolDatabase n toks st =
     (if hasSymbolDatabase st then Some st
      else if toks = [] then Some (st\<lparr>hasSymbolDatabase := True\<rparr>)
      else createSymbolDatabase_loop n toks 0 None (st\<lparr>hasSymbolDatabase := True\<rparr>))"


lemma class_member_cases:
  assumes "class_member n toks tok i st = Some (tok', info', st')"
  obtains (skip) "st' = st" "tok' = Tok tok"
    | (access) a where "info' = Some i" "st' = set_access i a st" "tok' = Tok tok"
    | (func) func where "info' = Some i" "is_function toks tok = Some True"
        "parse_function n toks tok i (spaceInfos st) = Some (func, tok')"
        "st' = push_back_function i func (count_constructor i func st)"
proof (cases "Tok tok = classEnd (spaceInfos st ! i)")
  case True
  with assms show ?thesis by (intro skip) (auto simp: class_member_def)
next
  case e: False
  show ?thesis
  proof (cases "access_label (str (toks ! tok))")
    case (Some a)
    with assms e show ?thesis by (intro access[of a]) (simp_all add: class_member_def)
  next
    case None
    show ?thesis
    proof (cases "is_function toks tok")
      case n: None
      with assms e None show ?thesis by (simp add: class_member_def)
    next
      case (Some b)
      show ?thesis
      proof (cases b)
        case False
        with assms e None Some show ?thesis by (intro skip) (simp_all add: class_member_def)
      next
        case True
        with assms e None Some obtain func where
          "parse_function n toks tok i (spaceInfos st) = Some (func, tok')"
          "st' = push_back_function i func (count_constructor i func st)" "info' = Some i"
          by (simp add: class_member_def split: option.splits prod.splits)
        with True Some show ?thesis by (intro func[of func]) simp_all
      qed
    qed
  qed
qed

lemma createSymbolDatabase_body_cases:
  assumes "createSymbolDatabase_body n toks tok info st = Some (tok', info', st')"
  obtains (scope) "new_scope n toks tok info st = Some (tok', info', st')"
    | (skip) "st' = st" "tok' = Tok tok"
    | (access) i a where "info = Some i" "info' = info" "st' = set_access i a st" "tok' = Tok tok"
    | (func) i func where "info = Some i" "info' = info" "is_function toks tok = Some True"
        "parse_function n toks tok i (spaceInfos st) = Some (func, tok')"
        "st' = push_back_function i func (count_constructor i func st)"
proof (cases "Match toks (Tok tok) [pAlt [''class'', ''struct'', ''namespace''], pVar, pAlt [''{'', '':'']]")
  case True
  with assms show ?thesis by (intro scope) (simp add: createSymbolDatabase_body_def)
next
  case m: False
  show ?thesis
  proof (cases info)
    case None
    with assms m show ?thesis by (intro skip) (simp_all add: createSymbolDatabase_body_def)
  next
    case (Some i)
    show ?thesis
    proof (cases "isNamespace (spaceInfos st ! i)")
      case True
      with assms m Some show ?thesis by (intro skip) (simp_all add: createSymbolDatabase_body_def)
    next
      case False
      with assms m Some have "class_member n toks tok i st = Some (tok', info', st')"
        by (simp add: createSymbolDatabase_body_def)
      then show ?thesis
      proof (cases rule: class_member_cases)
        case skip
        then show ?thesis by (intro that(2))
      next
        case (access a)
        with Some show ?thesis by (intro that(3)[of i a]) simp_all
      next
        case (func f)
        with Some show ?thesis by (intro that(4)[of i f]) simp_all
      qed
    qed
  qed
qed

lemma new_scope_cases:
  assumes "new_scope n toks tok info st = Some (tok', info', st')"
  obtains tok2 derived start vars where
    "class_start toks (tokAt toks tok 2) [] = Some (tok2, derived)"
    "deref toks tok2 = Some start" "tok' = Tok start" "info' = Some (length (spaceInfos st))"
    "getVarList n toks tok = Some vars"
    "st' = st\<lparr>spaceInfos := spaceInfos st @
              [\<lparr>isNamespace = (str (toks ! tok) = ''namespace''),
                className = strAt toks tok 1, classDef = tok, classStart = start,
                classEnd = link (toks ! start), numConstructors = 0, functionList = [],
                varlist = vars, derivedFrom = derived, nest = info,
                access = (if str (toks ! tok) = ''struct'' then Public else Private)\<rparr>],
            spaceInfoMMap := mmap_insert (strAt toks tok 1) (length (spaceInfos st)) (spaceInfoMMap st)\<rparr>"
  using assms unfolding new_scope_def
  by (auto simp: Let_def split: option.splits)

subsection \<open>The build is guarded by \<^verbatim>\<open>hasSymbolDatabase\<close>\<close>

lemma createSymbolDatabase_body_flag:
  assumes "createSymbolDatabase_body n toks tok info st = Some (tok', info', st')"
  shows "hasSymbolDatabase st' = hasSymbolDatabase st"
  using assms
proof (cases rule: createSymbolDatabase_body_cases)
  case scope
  then show ?thesis by (cases rule: new_scope_cases) simp
qed (simp_all add: set_access_def push_back_function_def count_constructor_def)

lemma list_all_update: "list_all P xs \<Longrightarrow> (i < length xs \<Longrightarrow> P x) \<Longrightarrow> list_all P (xs[i := x])"
  by (cases "i < length xs") (auto simp: list_all_length nth_list_update)

lemma createSymbolDatabase_loop_Suc:
  assumes "createSymbolDatabase_loop (Suc n) toks tok info st = Some st'"
  obtains t i s where "createSymbolDatabase_body n toks tok info st = Some (Tok t, i, s)"
    and "t < length toks"
    and "(tok_next toks t = Null \<and> st' = s)
         \<or> (\<exists>u. tok_next toks t = Tok u \<and> createSymbolDatabase_loop n toks u i s = Some st')"
proof (cases "createSymbolDatabase_body n toks tok info st")
  case None
  with assms show ?thesis by simp
next
  case (Some r)
  obtain p i s where r: "r = (p, i, s)" by (cases r)
  show ?thesis
  proof (cases "deref toks p")
    case None
    with assms Some r show ?thesis by (simp add: next_of_def)
  next
    case d: (Some t)
    then have p: "p = Tok t" "t < length toks" by (simp_all add: deref_Some)
    show ?thesis
    proof (cases "tok_next toks t")
      case Null
      with assms Some r d p show ?thesis by (intro that[of t i s]) (simp_all add: next_of_def)
    next
      case (Tok u)
      with assms Some r d p show ?thesis by (intro that[of t i s]) (simp_all add: next_of_def)
    qed
  qed
qed

text \<open>An invariant \<open>I\<close> of the sweep, with the condition \<open>J\<close> that a round establishes.\<close>

lemma createSymbolDatabase_loop_step_invariant:
  assumes run: "createSymbolDatabase_loop n toks tok info st = Some st'"
    and init: "I tok st"
    and body: "\<And>n tok info st t i s. I tok st \<Longrightarrow> t < length toks
                 \<Longrightarrow> createSymbolDatabase_body n toks tok info st = Some (Tok t, i, s) \<Longrightarrow> J t s"
    and nxt: "\<And>t s. J t s \<Longrightarrow> Suc t < length toks \<Longrightarrow> I (Suc t) s"
  shows "\<exists>t. J t st'"
  using run init
proof (induction n arbitrary: tok info st)
  case 0
  then show ?case by simp
next
  case (Suc n)
  from Suc.prems(1) show ?case
  proof (cases rule: createSymbolDatabase_loop_Suc)
    case (1 t i s)
    from body[OF Suc.prems(2) 1(2,1)] have j: "J t s" .
    from 1(3) show ?thesis
    proof (elim disjE exE conjE)
      assume "st' = s"
      with j show ?thesis by blast
    next
      fix u assume u: "tok_next toks t = Tok u" "createSymbolDatabase_loop n toks u i s = Some st'"
      from u(1) have "u = Suc t" "Suc t < length toks" by (simp_all add: tok_next_Tok)
      with nxt[OF j] have "I u s" by simp
      from Suc.IH[OF u(2) this] show ?thesis .
    qed
  qed
qed

lemma createSymbolDatabase_loop_invariant:
  assumes run: "createSymbolDatabase_loop n toks tok info st = Some st'"
    and init: "I tok st"
    and body: "\<And>n tok info st t i s. I tok st
                 \<Longrightarrow> createSymbolDatabase_body n toks tok info st = Some (Tok t, i, s) \<Longrightarrow> J t s"
    and nxt: "\<And>t s. J t s \<Longrightarrow> I (Suc t) s"
  shows "\<exists>t. J t st'"
  by (rule createSymbolDatabase_loop_step_invariant[OF run, where I = I and J = J])
     (use init body nxt in blast)+

lemma createSymbolDatabase_loop_valid_invariant:
  assumes run: "createSymbolDatabase_loop n toks tok info st = Some st'"
    and init: "I tok st" and valid: "tok < length toks"
    and body: "\<And>n tok info st t i s. I tok st \<Longrightarrow> tok < length toks
                 \<Longrightarrow> createSymbolDatabase_body n toks tok info st = Some (Tok t, i, s) \<Longrightarrow> J t s"
    and nxt: "\<And>t s. J t s \<Longrightarrow> I (Suc t) s"
  shows "\<exists>t. J t st'"
proof -
  have "\<exists>t. J t st' \<and> t < length toks"
  proof (rule createSymbolDatabase_loop_step_invariant
           [OF run, where I = "\<lambda>t s. I t s \<and> t < length toks"
                      and J = "\<lambda>t s. J t s \<and> t < length toks"])
    show "I tok st \<and> tok < length toks" using init valid by simp
  next
    fix n tok info st t i s
    assume "I tok st \<and> tok < length toks" "t < length toks"
      and "createSymbolDatabase_body n toks tok info st = Some (Tok t, i, s)"
    then show "J t s \<and> t < length toks" using body by blast
  next
    fix t s
    assume "J t s \<and> t < length toks" "Suc t < length toks"
    then show "I (Suc t) s \<and> Suc t < length toks" using nxt by blast
  qed
  then show ?thesis by blast
qed

lemma createSymbolDatabase_loop_flag:
  assumes "createSymbolDatabase_loop n toks tok info st = Some st'"
  shows "hasSymbolDatabase st' = hasSymbolDatabase st"
proof -
  have "\<exists>t::nat. hasSymbolDatabase st' = hasSymbolDatabase st"
  proof (rule createSymbolDatabase_loop_invariant
          [OF assms, where I = "\<lambda>t s. hasSymbolDatabase s = hasSymbolDatabase st"
                       and J = "\<lambda>t s. hasSymbolDatabase s = hasSymbolDatabase st"])
    show "hasSymbolDatabase st = hasSymbolDatabase st" by (rule refl)
  next
    fix n tok info s t i s'
    assume "hasSymbolDatabase s = hasSymbolDatabase st"
      and "createSymbolDatabase_body n toks tok info s = Some (Tok t, i, s')"
    then show "hasSymbolDatabase s' = hasSymbolDatabase st"
      using createSymbolDatabase_body_flag by metis
  qed
  then show ?thesis by simp
qed

lemma createSymbolDatabase_flag:
  assumes "createSymbolDatabase n toks st = Some st'"
  shows "hasSymbolDatabase st'"
proof (cases "hasSymbolDatabase st")
  case True
  with assms show ?thesis by (simp add: createSymbolDatabase_def)
next
  case False
  show ?thesis
  proof (cases "toks = []")
    case True
    with assms False have "st' = st\<lparr>hasSymbolDatabase := True\<rparr>"
      by (simp add: createSymbolDatabase_def)
    then show ?thesis by simp
  next
    case ne: False
    with assms False
    have "createSymbolDatabase_loop n toks 0 None (st\<lparr>hasSymbolDatabase := True\<rparr>) = Some st'"
      by (simp add: createSymbolDatabase_def)
    from createSymbolDatabase_loop_flag[OF this] show ?thesis by simp
  qed
qed

subsection \<open>Constructors are counted\<close>

definition constructors_counted :: "SpaceInfo \<Rightarrow> bool" where
  "constructors_counted info =
     (numConstructors info = length (filter is_constructor (functionList info)))"

lemma createSymbolDatabase_body_counted:
  assumes "createSymbolDatabase_body n toks tok info st = Some (tok', info', st')"
    and "list_all constructors_counted (spaceInfos st)"
  shows "list_all constructors_counted (spaceInfos st')"
  using assms(1)
proof (cases rule: createSymbolDatabase_body_cases)
  case scope
  then show ?thesis
    using assms(2) by (cases rule: new_scope_cases) (simp add: constructors_counted_def)
next
  case skip
  with assms(2) show ?thesis by simp
next
  case (access i a)
  have "i < length (spaceInfos st) \<Longrightarrow> constructors_counted ((spaceInfos st ! i)\<lparr>SpaceInfo.access := a\<rparr>)"
    using assms(2) by (simp add: constructors_counted_def list_all_length)
  with access assms(2) show ?thesis
    by (simp add: set_access_def list_all_update)
next
  case (func i func)
  have "i < length (spaceInfos st) \<Longrightarrow> constructors_counted (spaceInfos st ! i)"
    using assms(2) by (simp add: list_all_length)
  with func(5) assms(2) show ?thesis
    by (auto simp: push_back_function_def count_constructor_def constructors_counted_def
             intro!: list_all_update)
qed

lemma createSymbolDatabase_loop_counted:
  assumes "createSymbolDatabase_loop n toks tok info st = Some st'"
    and "list_all constructors_counted (spaceInfos st)"
  shows "list_all constructors_counted (spaceInfos st')"
proof -
  have "\<exists>t::nat. list_all constructors_counted (spaceInfos st')"
  proof (rule createSymbolDatabase_loop_invariant
          [OF assms(1), where I = "\<lambda>t s. list_all constructors_counted (spaceInfos s)"
                          and J = "\<lambda>t s. list_all constructors_counted (spaceInfos s)"])
    show "list_all constructors_counted (spaceInfos st)" by (rule assms(2))
  next
    fix n tok info s t i s'
    assume "list_all constructors_counted (spaceInfos s)"
      and "createSymbolDatabase_body n toks tok info s = Some (Tok t, i, s')"
    then show "list_all constructors_counted (spaceInfos s')"
      by (rule createSymbolDatabase_body_counted[rotated])
  qed
  then show ?thesis by simp
qed

subsection \<open>The order of the multimap\<close>

text \<open>The links of a token list are matched when every link leads from a bracket to its
  partner and back, the opening bracket before the closing one (the guarantee of
  \<^verbatim>\<open>Tokenizer::createLinks\<close>).\<close>

definition bracket_pair :: "string \<Rightarrow> string \<Rightarrow> bool" where
  "bracket_pair a b = ((a, b) \<in> set [(''('', '')''), (''{'', ''}''), (''['', '']''), (''<'', ''>'')])"

definition links_matched :: "token list \<Rightarrow> bool" where
  "links_matched toks =
     list_all (\<lambda>i. case link (toks ! i) of
                     Null \<Rightarrow> True
                   | Tok j \<Rightarrow> j < length toks \<and> link (toks ! j) = Tok i
                       \<and> (if i < j then bracket_pair (str (toks ! i)) (str (toks ! j))
                           else j < i \<and> bracket_pair (str (toks ! j)) (str (toks ! i))))
              [0..<length toks]"

lemma links_matchedD:
  assumes "links_matched toks" "i < length toks" "link (toks ! i) = Tok j"
  shows "j < length toks"
    and "(i < j \<and> bracket_pair (str (toks ! i)) (str (toks ! j)))
         \<or> (j < i \<and> bracket_pair (str (toks ! j)) (str (toks ! i)))"
proof -
  from assms(1,2)
  have "case link (toks ! i) of
          Null \<Rightarrow> True
        | Tok j \<Rightarrow> j < length toks \<and> link (toks ! j) = Tok i
            \<and> (if i < j then bracket_pair (str (toks ! i)) (str (toks ! j))
                else j < i \<and> bracket_pair (str (toks ! j)) (str (toks ! i)))"
    unfolding links_matched_def list_all_iff by simp
  with assms(3)
  have *: "j < length toks \<and> (if i < j then bracket_pair (str (toks ! i)) (str (toks ! j))
                else j < i \<and> bracket_pair (str (toks ! j)) (str (toks ! i)))"
    by simp
  then show "j < length toks" by simp
  from * show "(i < j \<and> bracket_pair (str (toks ! i)) (str (toks ! j)))
         \<or> (j < i \<and> bracket_pair (str (toks ! j)) (str (toks ! i)))"
    by (cases "i < j") simp_all
qed

lemma links_matched_closing:
  assumes "links_matched toks" "i < length toks" "link (toks ! i) = Tok j"
    and "str (toks ! j) = '')'' \<or> str (toks ! j) = ''}''"
  shows "i < j"
  using links_matchedD(2)[OF assms(1-3)] assms(4) by (auto simp: bracket_pair_def)

lemma links_matched_opening:
  assumes "links_matched toks" "i < length toks" "link (toks ! i) = Tok j"
    and "str (toks ! i) = ''('' \<or> str (toks ! i) = ''{''"
  shows "i < j"
  using links_matchedD(2)[OF assms(1-3)] assms(4) by (auto simp: bracket_pair_def)

lemma Match_pLit:
  "Match toks p (pLit s # ss) \<Longrightarrow> \<exists>i. p = Tok i \<and> i < length toks \<and> str (toks ! i) = s"
  by (cases p) (auto simp: Match.simps split: if_splits)

lemma class_start_forward:
  "class_start toks p d = Some (Tok s, df) \<Longrightarrow> p = Tok i \<Longrightarrow> i \<le> s"
proof (induction toks p d arbitrary: i rule: class_start.induct)
  case (1 toks tok2 derived)
  note cs = class_start.simps[of toks "Tok i" derived]
  from "1.prems" have il: "i < length toks"
    by (simp add: cs split: if_splits)
  then have nl: "\<not> length toks \<le> i" by simp
  show ?case
  proof (cases "str (toks ! i) = ''{''")
    case True
    with "1.prems" il show ?thesis by (simp add: cs)
  next
    case nb: False
    show ?thesis
    proof (cases "Match toks (Tok i) [pAlt ['':'', '',''], pAlt [''public'', ''protected'', ''private'']]")
      case True
      obtain dn p where q: "qualified_name toks (tokAt toks i 2) [] = (dn, p)"
        by (cases "qualified_name toks (tokAt toks i 2) []")
      with "1.prems" il nb True obtain j where j: "deref toks p = Some j"
        and r: "class_start toks (tok_next toks j) (derived @ [dn @ str (toks ! j)]) = Some (Tok s, df)"
        by (auto simp: cs split: option.splits)
      from qualified_name_base[OF q j] have ij: "i < j" .
      from r obtain u where u: "tok_next toks j = Tok u"
        by (cases "tok_next toks j") (auto simp: class_start.simps[of toks Null])
      then have "u = Suc j" by (simp add: tok_next_Tok)
      from True "1.prems"(2)
      have m: "Match toks tok2 [pAlt ['':'', '',''], pAlt [''public'', ''protected'', ''private'']]"
        by simp
      from "1.IH"(1)[OF "1.prems"(2) nl nb m q[symmetric] j r u]
      have "u \<le> s" .
      with ij \<open>u = Suc j\<close> show ?thesis by simp
    next
      case False
      with "1.prems" il nb
      have r: "class_start toks (tok_next toks i) derived = Some (Tok s, df)"
        by (simp add: cs)
      then obtain u where u: "tok_next toks i = Tok u"
        by (cases "tok_next toks i") (auto simp: class_start.simps[of toks Null])
      then have "u = Suc i" by (simp add: tok_next_Tok)
      from False "1.prems"(2)
      have m: "\<not> Match toks tok2 [pAlt ['':'', '',''], pAlt [''public'', ''protected'', ''private'']]"
        by simp
      from "1.IH"(2)[OF "1.prems"(2) nl nb m r u] have "u \<le> s" .
      with \<open>u = Suc i\<close> show ?thesis by simp
    qed
  qed
qed

lemma goto_brace_forward:
  "goto_brace toks p = Some b \<Longrightarrow> p = Tok i \<Longrightarrow> i \<le> b \<and> b < length toks \<and> str (toks ! b) = ''{''"
proof (induction toks p arbitrary: i rule: goto_brace.induct)
  case (1 toks tok)
  note gb = goto_brace.simps[of toks "Tok i"]
  from "1.prems" have il: "i < length toks" and d: "deref toks (Tok i) = Some i"
    by (auto simp: gb deref_Some split: option.splits)
  show ?case
  proof (cases "str (toks ! i) = ''{''")
    case True
    with "1.prems" il d show ?thesis by (simp add: gb)
  next
    case False
    with "1.prems" d have r: "goto_brace toks (tok_next toks i) = Some b" by (simp add: gb)
    then obtain u where u: "tok_next toks i = Tok u"
      by (cases "tok_next toks i") (auto simp: goto_brace.simps[of toks Null] deref_def)
    then have "u = Suc i" by (simp add: tok_next_Tok)
    from d "1.prems"(2) have d': "deref toks tok = Some i" by simp
    from "1.IH"[OF d' False r u] have "u \<le> b \<and> b < length toks \<and> str (toks ! b) = ''{''" .
    with \<open>u = Suc i\<close> show ?thesis by simp
  qed
qed

lemma tokAt_2: "tokAt toks i 2 = tok_next toks (Suc i)"
  by (auto simp: tokAt_def tok_next_def Let_def nat_add_distrib)

lemma is_function_end:
  assumes "is_function toks tok = Some True"
  obtains e where "function_end toks tok = Some (Tok e)" "e < length toks" "str (toks ! e) = '')''"
proof -
  from assms obtain p where
    "map_option (\<lambda>e. Match toks e [pLit '')'', pOpt [''const''], pAlt ['';'', ''{'', ''='', '':'']])
       (function_end toks tok) = Some True"
    by (auto simp: is_function_def split: if_splits option.splits)
  then obtain e where e: "function_end toks tok = Some e"
    and m: "Match toks e [pLit '')'', pOpt [''const''], pAlt ['';'', ''{'', ''='', '':'']]"
    by auto
  from Match_pLit[OF m] e show ?thesis by (auto intro: that)
qed

lemma parse_function_cases:
  assumes "parse_function n toks tok i infos = Some (func, tok')"
  obtains tdef nxt nn where
    "(if str (toks ! tok) = ''operator'' then deref toks (tok_next toks tok) else Some tok) = Some tdef"
    "link_of toks (tok_next toks tdef) = Some nxt" "next_of toks nxt = Some nn"
    "tok' = nn \<or> (\<exists>b. goto_brace toks nn = Some b \<and> tok' = link (toks ! b))"
proof -
  let ?d = "if str (toks ! tok) = ''operator'' then deref toks (tok_next toks tok) else Some tok"
  from assms obtain tdef where t: "?d = Some tdef"
    by (cases ?d) (simp_all add: parse_function_def Let_def)
  let ?ty = "if str (toks ! tok) = ''operator''
             then Some (if str (toks ! tdef) = ''='' then OperatorEqual else Function)
             else function_type toks tdef (className (infos ! i))"
  from assms t obtain ty where ty: "?ty = Some ty"
    by (cases ?ty) (simp_all add: parse_function_def Let_def)
  obtain virt stat frnd where ms: "modifier_scan toks tok = (virt, stat, frnd)"
    by (cases "modifier_scan toks tok")
  from assms t ty ms obtain nxt where nxt: "link_of toks (tok_next toks tdef) = Some nxt"
    by (cases "link_of toks (tok_next toks tdef)") (simp_all add: parse_function_def Let_def)
  from assms t ty ms nxt obtain nn where nn: "next_of toks nxt = Some nn"
    by (cases "next_of toks nxt") (simp_all add: parse_function_def Let_def)
  from assms t ty ms nxt nn obtain cs where cs: "str_of toks nn = Some cs"
    by (cases "str_of toks nn") (simp_all add: parse_function_def Let_def)
  from assms t ty ms nxt nn cs
  have "tok' = nn \<or> (\<exists>b. goto_brace toks nn = Some b \<and> tok' = link (toks ! b))"
    by (simp add: parse_function_def Let_def split: if_splits option.splits)
  with t nxt nn show ?thesis by (rule that)
qed

lemma parse_function_forward:
  assumes p: "parse_function n toks tok i infos = Some (func, Tok t)"
    and f: "is_function toks tok = Some True"
    and l: "links_matched toks" and v: "tok < length toks"
  shows "tok < t"
  using p
proof (cases rule: parse_function_cases)
  case (1 tdef nxt nn)
  from f obtain e where e: "function_end toks tok = Some (Tok e)" "e < length toks"
    "str (toks ! e) = '')''"
    by (rule is_function_end)
  have td: "tok \<le> tdef" and fe: "function_end toks tok = link_of toks (tok_next toks tdef)"
    using 1(1)
    by (auto simp: function_end_def deref_Some tok_next_Tok tokAt_2 split: if_splits)
  from fe e 1(2) have nxt: "nxt = Tok e" by simp
  from 1(2) nxt obtain a where a: "tok_next toks tdef = Tok a" "a < length toks" "link (toks ! a) = Tok e"
    by (auto simp: link_of_def deref_Some)
  from links_matched_closing[OF l a(2,3)] e(3) have "a < e" by simp
  moreover from a(1) have "a = Suc tdef" by (simp add: tok_next_Tok)
  ultimately have te: "tok < e" using td by simp
  from 1(3) nxt have nn: "nn = tok_next toks e" by (simp add: next_of_def deref_Some e(2))
  from 1(4) show ?thesis
  proof (elim disjE exE conjE)
    assume "Tok t = nn"
    with nn have "t = Suc e" by (simp add: tok_next_Tok eq_commute[of "Tok t"])
    with te show ?thesis by simp
  next
    fix b assume b: "goto_brace toks nn = Some b" "Tok t = link (toks ! b)"
    from b(1) obtain u where u: "nn = Tok u"
      by (cases nn) (auto simp: goto_brace.simps[of toks Null] deref_def)
    with nn have "u = Suc e" by (simp add: tok_next_Tok eq_commute[of "Tok u"])
    from goto_brace_forward[OF b(1) u] have "u \<le> b" "b < length toks" "str (toks ! b) = ''{''"
      by simp_all
    from links_matched_opening[OF l this(2) b(2)[symmetric]] this(3) have "b < t" by simp
    with \<open>u \<le> b\<close> \<open>u = Suc e\<close> te show ?thesis by simp
  qed
qed

lemma new_scope_forward:
  assumes "new_scope n toks tok info st = Some (Tok t, info', st')"
  shows "tok < t"
  using assms
proof (cases rule: new_scope_cases)
  case (1 tok2 derived start vars)
  from 1(2) have t2: "tok2 = Tok start" by (simp add: deref_Some)
  with 1(1) obtain a where a: "tokAt toks tok 2 = Tok a"
    by (cases "tokAt toks tok 2") (auto simp: class_start.simps[of toks Null])
  then have "tok < a" by (auto simp: tokAt_def Let_def split: if_splits)
  moreover from class_start_forward[OF 1(1)[unfolded t2 a] refl] have "a \<le> start" .
  ultimately show ?thesis using 1(3) by simp
qed

lemma createSymbolDatabase_body_forward:
  assumes "createSymbolDatabase_body n toks tok info st = Some (Tok t, info', st')"
    and "links_matched toks" and "tok < length toks"
  shows "tok \<le> t"
  using assms(1)
proof (cases rule: createSymbolDatabase_body_cases)
  case scope
  from new_scope_forward[OF this] show ?thesis by simp
next
  case skip
  then show ?thesis by simp
next
  case (access i a)
  then show ?thesis by simp
next
  case (func i func)
  from parse_function_forward[OF func(4,3) assms(2,3)] show ?thesis by simp
qed

text \<open>The scopes in the order in which a check visits them:
  \<^verbatim>\<open>for (i = spaceInfoMMap.begin(); i != spaceInfoMMap.end(); ++i)\<close>.\<close>

definition scopes :: "CheckClass \<Rightarrow> SpaceInfo list" where
  "scopes st = map (\<lambda>e. spaceInfos st ! snd e) (spaceInfoMMap st)"

definition mmap_before :: "string \<times> nat \<Rightarrow> string \<times> nat \<Rightarrow> bool" where
  "mmap_before e f = (fst e < fst f \<or> (fst e = fst f \<and> snd e < snd f))"

definition db_ordered :: "CheckClass \<Rightarrow> bool" where
  "db_ordered st =
     (sorted_wrt mmap_before (spaceInfoMMap st)
      \<and> list_all (\<lambda>e. snd e < length (spaceInfos st) \<and> map className (spaceInfos st) ! snd e = fst e)
           (spaceInfoMMap st)
      \<and> sorted_wrt (<) (map classDef (spaceInfos st)))"

lemma set_mmap_insert: "set (mmap_insert k a m) = insert (k, a) (set m)"
  by (induction m) auto

lemma sorted_mmap_insert:
  "sorted_wrt mmap_before m \<Longrightarrow> \<forall>e\<in>set m. snd e < a \<Longrightarrow> sorted_wrt mmap_before (mmap_insert k a m)"
proof (induction m)
  case Nil
  then show ?case by simp
next
  case (Cons e m)
  show ?case
  proof (cases "k < fst e")
    case True
    have "mmap_before (k, a) x" if "x \<in> set (e # m)" for x
    proof (cases "x = e")
      case True
      with \<open>k < fst e\<close> show ?thesis by (simp add: mmap_before_def)
    next
      case False
      with that Cons.prems(1) have "mmap_before e x" by auto
      with \<open>k < fst e\<close> show ?thesis by (auto simp: mmap_before_def)
    qed
    with True Cons.prems(1) show ?thesis by simp
  next
    case False
    have "mmap_before e (k, a)" using False Cons.prems(2) by (auto simp: mmap_before_def)
    with False Cons show ?thesis by (auto simp: set_mmap_insert)
  qed
qed

lemma db_ordered_cong:
  assumes "spaceInfoMMap st' = spaceInfoMMap st"
    and "map classDef (spaceInfos st') = map classDef (spaceInfos st)"
    and "map className (spaceInfos st') = map className (spaceInfos st)"
  shows "db_ordered st' = db_ordered st"
proof -
  from assms(2) have "length (spaceInfos st') = length (spaceInfos st)"
    by (rule map_eq_imp_length_eq)
  with assms show ?thesis by (simp add: db_ordered_def)
qed

lemma map_update_same: "f x = f (xs ! i) \<Longrightarrow> map f (xs[i := x]) = map f xs"
  by (cases "i < length xs") (simp_all add: map_update list_update_same_conv list_update_beyond)

lemma createSymbolDatabase_body_ordered:
  assumes b: "createSymbolDatabase_body n toks tok info st = Some (Tok t, info', st')"
    and o: "db_ordered st" and c: "\<forall>x\<in>set (spaceInfos st). classDef x < tok"
    and l: "links_matched toks" and v: "tok < length toks"
  shows "db_ordered st' \<and> (\<forall>x\<in>set (spaceInfos st'). classDef x \<le> t)"
proof -
  from createSymbolDatabase_body_forward[OF b l v] have t: "tok \<le> t" .
  have same: "db_ordered st' \<and> (\<forall>x\<in>set (spaceInfos st'). classDef x \<le> t)"
    if "spaceInfoMMap st' = spaceInfoMMap st"
      "map classDef (spaceInfos st') = map classDef (spaceInfos st)"
      "map className (spaceInfos st') = map className (spaceInfos st)"
  proof -
    from c have "\<forall>d\<in>set (map classDef (spaceInfos st)). d < tok" by simp
    with that(2) have "\<forall>d\<in>set (map classDef (spaceInfos st')). d < tok" by simp
    with t have "\<forall>x\<in>set (spaceInfos st'). classDef x \<le> t" by auto
    with db_ordered_cong[OF that] o show ?thesis by simp
  qed
  from b show ?thesis
  proof (cases rule: createSymbolDatabase_body_cases)
    case scope
    from new_scope_forward[OF scope] have tt: "tok < t" .
    from scope show ?thesis
    proof (cases rule: new_scope_cases)
      case (1 tok2 derived start vars)
      let ?a = "length (spaceInfos st)"
      from o have "\<forall>e\<in>set (spaceInfoMMap st). snd e < ?a"
        by (auto simp: db_ordered_def list_all_iff)
      from sorted_mmap_insert[OF _ this] o
      have s1: "sorted_wrt mmap_before (mmap_insert (strAt toks tok 1) ?a (spaceInfoMMap st))"
        by (simp add: db_ordered_def)
      from o c have s2: "sorted_wrt (<) (map classDef (spaceInfos st) @ [tok])"
        by (auto simp: db_ordered_def sorted_wrt_append)
      from o have s3: "\<forall>e\<in>set (spaceInfoMMap st). snd e < Suc ?a
                        \<and> (map className (spaceInfos st) @ [strAt toks tok 1]) ! snd e = fst e"
        by (auto simp: db_ordered_def list_all_iff nth_append)
      from 1(6) s1 s2 s3 c tt show ?thesis
        by (auto simp: db_ordered_def list_all_iff set_mmap_insert nth_append)
    qed
  next
    case skip
    then show ?thesis by (intro same) simp_all
  next
    case (access i a)
    then show ?thesis by (intro same) (simp_all add: set_access_def map_update_same)
  next
    case (func i f)
    then show ?thesis
      by (intro same)
         (simp_all add: push_back_function_def count_constructor_def map_update_same)
  qed
qed

lemma createSymbolDatabase_loop_ordered:
  assumes "createSymbolDatabase_loop n toks tok info st = Some st'"
    and "links_matched toks" and "db_ordered st" and "\<forall>x\<in>set (spaceInfos st). classDef x < tok"
    and "tok < length toks"
  shows "db_ordered st'"
proof -
  let ?I = "\<lambda>t s. db_ordered s \<and> (\<forall>x\<in>set (spaceInfos s). classDef x < t)"
  let ?J = "\<lambda>t s. db_ordered s \<and> (\<forall>x\<in>set (spaceInfos s). classDef x \<le> t)"
  have "\<exists>t. ?J t st'"
  proof (rule createSymbolDatabase_loop_valid_invariant[OF assms(1), where I = ?I and J = ?J])
    show "?I tok st" using assms(3,4) by simp
  next
    show "tok < length toks" by (rule assms(5))
  next
    fix n tok info s t i s'
    assume "?I tok s" "tok < length toks"
      and "createSymbolDatabase_body n toks tok info s = Some (Tok t, i, s')"
    then show "?J t s'"
      using createSymbolDatabase_body_ordered[OF _ _ _ assms(2)] by blast
  next
    fix t s
    assume "?J t s"
    then show "?I (Suc t) s" by (auto simp: less_Suc_eq_le)
  qed
  then show ?thesis by blast
qed

definition mmap_valid :: "CheckClass \<Rightarrow> bool" where
  "mmap_valid st = list_all (\<lambda>e. snd e < length (spaceInfos st)) (spaceInfoMMap st)"

lemma createSymbolDatabase_body_valid:
  assumes "createSymbolDatabase_body n toks tok info st = Some (tok', info', st')"
    and "mmap_valid st"
  shows "mmap_valid st'"
  using assms(1)
proof (cases rule: createSymbolDatabase_body_cases)
  case scope
  then show ?thesis
    using assms(2)
    by (cases rule: new_scope_cases) (auto simp: mmap_valid_def list_all_iff set_mmap_insert)
next
  case skip
  with assms(2) show ?thesis by simp
next
  case (access i a)
  with assms(2) show ?thesis by (simp add: set_access_def mmap_valid_def)
next
  case (func i func)
  with assms(2) show ?thesis
    by (simp add: push_back_function_def count_constructor_def mmap_valid_def)
qed

lemma createSymbolDatabase_loop_valid:
  assumes "createSymbolDatabase_loop n toks tok info st = Some st'" and "mmap_valid st"
  shows "mmap_valid st'"
proof -
  have "\<exists>t::nat. mmap_valid st'"
  proof (rule createSymbolDatabase_loop_invariant
          [OF assms(1), where I = "\<lambda>t s. mmap_valid s" and J = "\<lambda>t s. mmap_valid s"])
    show "mmap_valid st" by (rule assms(2))
  next
    fix n tok info s t i s'
    assume "mmap_valid s" and "createSymbolDatabase_body n toks tok info s = Some (Tok t, i, s')"
    then show "mmap_valid s'" by (rule createSymbolDatabase_body_valid[rotated])
  qed
  then show ?thesis by simp
qed

lemma createSymbolDatabase_new_cases:
  assumes "createSymbolDatabase n toks CheckClass_new = Some st"
  obtains (empty) "toks = []" "st = CheckClass_new\<lparr>hasSymbolDatabase := True\<rparr>"
    | (sweep) "toks \<noteq> []"
        "createSymbolDatabase_loop n toks 0 None (CheckClass_new\<lparr>hasSymbolDatabase := True\<rparr>) = Some st"
  using assms by (cases "toks = []") (auto simp: createSymbolDatabase_def CheckClass_new_def)

text \<open>
  C3 (the checks visit the scopes in the order of their class headers in the token
  list, whatever their names). The claim fails: \<^verbatim>\<open>spaceInfoMMap\<close> is a \<^verbatim>\<open>std::multimap\<close>
  with the class name as key, and its iteration goes by key. For
  \<^verbatim>\<open>class B { } ; class A { } ;\<close> the scope \<^verbatim>\<open>A\<close>, whose header is token 5, is visited before
  the scope \<^verbatim>\<open>B\<close>, whose header is token 0.
\<close>

theorem scopes_source_order_counterexample:
  "map_option (\<lambda>st. map (\<lambda>info. (className info, classDef info)) (scopes st))
     (createSymbolDatabase 10
        (tokenize [''class'', ''B'', ''{'', ''}'', '';'', ''class'', ''A'', ''{'', ''}'', '';''])
        CheckClass_new)
   = Some [(''A'', 5), (''B'', 0)]"
  by code_simp

text \<open>
  C3, amended: the checks visit the scopes in the order of the multimap, that is in
  ascending order of the class name, and scopes of the same name in the order of their
  class headers in the token list. Proved for the database that
  \<^verbatim>\<open>createSymbolDatabase\<close> builds in a new \<^verbatim>\<open>CheckClass\<close> from a token list with matched
  links.
\<close>

theorem scopes_ordered_by_name_then_source:
  assumes "links_matched toks" and "createSymbolDatabase n toks CheckClass_new = Some st"
  shows "sorted_wrt (\<lambda>a b. className a < className b
                          \<or> (className a = className b \<and> classDef a < classDef b))
           (scopes st)"
proof -
  have o: "db_ordered st"
    using assms(2)
  proof (cases rule: createSymbolDatabase_new_cases)
    case empty
    then show ?thesis by (simp add: db_ordered_def CheckClass_new_def)
  next
    case sweep
    show ?thesis
      by (rule createSymbolDatabase_loop_ordered[OF sweep(2) assms(1)])
         (use sweep(1) in \<open>simp_all add: db_ordered_def CheckClass_new_def\<close>)
  qed
  let ?R = "\<lambda>a b. className a < className b \<or> (className a = className b \<and> classDef a < classDef b)"
  have r: "?R (spaceInfos st ! snd e) (spaceInfos st ! snd f)"
    if "e \<in> set (spaceInfoMMap st)" "f \<in> set (spaceInfoMMap st)" "mmap_before e f" for e f
  proof -
    from o that(1,2) have v: "snd e < length (spaceInfos st)" "snd f < length (spaceInfos st)"
      and k: "className (spaceInfos st ! snd e) = fst e" "className (spaceInfos st ! snd f) = fst f"
      by (auto simp: db_ordered_def list_all_iff)
    have "classDef (spaceInfos st ! snd e) < classDef (spaceInfos st ! snd f)" if "snd e < snd f"
      using o sorted_wrt_nth_less[of "(<)" "map classDef (spaceInfos st)" "snd e" "snd f"] that v
      by (simp add: db_ordered_def)
    with that(3) k show ?thesis by (auto simp: mmap_before_def)
  qed
  from o have "sorted_wrt mmap_before (spaceInfoMMap st)" by (simp add: db_ordered_def)
  then have "sorted_wrt (\<lambda>e f. ?R (spaceInfos st ! snd e) (spaceInfos st ! snd f)) (spaceInfoMMap st)"
    by (rule sorted_wrt_mono_rel[rotated]) (rule r)
  then show ?thesis by (simp add: scopes_def sorted_wrt_map)
qed

theorem scopes_ordered_by_name_then_source_witness:
  "links_matched (tokenize [''namespace'', ''N'', ''{'', ''class'', ''B'', ''{'', ''}'', '';'', ''}'',
      ''class'', ''B'', ''{'', ''}'', '';'', ''class'', ''A'', ''{'', ''}'', '';''])
   \<and> (\<exists>st. createSymbolDatabase 20 (tokenize [''namespace'', ''N'', ''{'', ''class'', ''B'', ''{'',
              ''}'', '';'', ''}'', ''class'', ''B'', ''{'', ''}'', '';'', ''class'', ''A'', ''{'', ''}'',
              '';'']) CheckClass_new = Some st
          \<and> map (\<lambda>info. (className info, classDef info)) (scopes st)
              = [(''A'', 14), (''B'', 3), (''B'', 9), (''N'', 0)]
          \<and> sorted_wrt (\<lambda>a b. className a < className b
                          \<or> (className a = className b \<and> classDef a < classDef b))
               (scopes st))"
proof -
  let ?toks = "tokenize [''namespace'', ''N'', ''{'', ''class'', ''B'', ''{'', ''}'', '';'', ''}'',
      ''class'', ''B'', ''{'', ''}'', '';'', ''class'', ''A'', ''{'', ''}'', '';'']"
  have l: "links_matched ?toks" by code_simp
  have "map_option (\<lambda>st. map (\<lambda>info. (className info, classDef info)) (scopes st))
          (createSymbolDatabase 20 ?toks CheckClass_new)
        = Some [(''A'', 14), (''B'', 3), (''B'', 9), (''N'', 0)]"
    by code_simp
  then obtain st where run: "createSymbolDatabase 20 ?toks CheckClass_new = Some st"
    and m: "map (\<lambda>info. (className info, classDef info)) (scopes st)
              = [(''A'', 14), (''B'', 3), (''B'', 9), (''N'', 0)]"
    by auto
  from scopes_ordered_by_name_then_source[OF l run] l run m show ?thesis
    by (intro conjI exI[of _ st])
qed

text \<open>
  C4 (after \<^verbatim>\<open>createSymbolDatabase\<close>, \<^verbatim>\<open>numConstructors\<close> of every \<^verbatim>\<open>SpaceInfo\<close> of the
  database is the number of the entries of its \<^verbatim>\<open>functionList\<close> whose type is
  \<^verbatim>\<open>Constructor\<close> or \<^verbatim>\<open>CopyConstructor\<close>). Proved for the database built in a new
  \<^verbatim>\<open>CheckClass\<close>, for every \<^verbatim>\<open>SpaceInfo\<close> that the iteration of the multimap reaches.
\<close>

theorem numConstructors_counts_constructors:
  assumes "createSymbolDatabase n toks CheckClass_new = Some st"
  shows "\<forall>info\<in>set (scopes st).
           numConstructors info
             = length (filter (\<lambda>f. type f = Constructor \<or> type f = CopyConstructor) (functionList info))"
proof -
  have "list_all constructors_counted (spaceInfos st) \<and> mmap_valid st"
    using assms
  proof (cases rule: createSymbolDatabase_new_cases)
    case empty
    then show ?thesis by (simp add: CheckClass_new_def mmap_valid_def)
  next
    case sweep
    have "list_all constructors_counted (spaceInfos st)"
      by (rule createSymbolDatabase_loop_counted[OF sweep(2)]) (simp add: CheckClass_new_def)
    moreover have "mmap_valid st"
      by (rule createSymbolDatabase_loop_valid[OF sweep(2)]) (simp add: CheckClass_new_def mmap_valid_def)
    ultimately show ?thesis ..
  qed
  then have "\<forall>info\<in>set (scopes st). constructors_counted info"
    by (auto simp: scopes_def mmap_valid_def list_all_iff)
  then show ?thesis
    by (simp add: constructors_counted_def is_constructor_def[abs_def])
qed

theorem numConstructors_counts_constructors_witness:
  "\<exists>st. createSymbolDatabase 40
           (tokenize [''class'', ''A'', ''{'', ''public:'', ''A'', ''('', '')'', ''{'', ''}'',
              ''A'', ''('', ''const'', ''A'', ''&'', '')'', '';'', ''void'', ''f'', ''('', '')'', '';'',
              ''}'', '';'']) CheckClass_new = Some st
        \<and> map (\<lambda>info. (numConstructors info, map type (functionList info))) (scopes st)
            = [(2, [Constructor, CopyConstructor, Function])]
        \<and> (\<forall>info\<in>set (scopes st).
             numConstructors info
               = length (filter (\<lambda>f. type f = Constructor \<or> type f = CopyConstructor)
                           (functionList info)))"
proof -
  let ?toks = "tokenize [''class'', ''A'', ''{'', ''public:'', ''A'', ''('', '')'', ''{'', ''}'',
              ''A'', ''('', ''const'', ''A'', ''&'', '')'', '';'', ''void'', ''f'', ''('', '')'', '';'',
              ''}'', '';'']"
  have "map_option (\<lambda>st. map (\<lambda>info. (numConstructors info, map type (functionList info))) (scopes st))
          (createSymbolDatabase 40 ?toks CheckClass_new)
        = Some [(2, [Constructor, CopyConstructor, Function])]"
    by code_simp
  then obtain st where run: "createSymbolDatabase 40 ?toks CheckClass_new = Some st"
    and m: "map (\<lambda>info. (numConstructors info, map type (functionList info))) (scopes st)
            = [(2, [Constructor, CopyConstructor, Function])]"
    by auto
  from numConstructors_counts_constructors[OF run] run m show ?thesis
    by (intro conjI exI[of _ st])
qed

text \<open>
  C5 (building the symbol database is idempotent). A second call of
  \<^verbatim>\<open>createSymbolDatabase\<close> on the same \<^verbatim>\<open>CheckClass\<close> finds \<^verbatim>\<open>hasSymbolDatabase\<close>
  set and returns at once: the database is the one that the first call left, with the
  same \<^verbatim>\<open>SpaceInfo\<close> contents and the same entries of the multimap.
\<close>

theorem createSymbolDatabase_idempotent:
  assumes "createSymbolDatabase n toks st = Some st'"
  shows "createSymbolDatabase m toks st' = Some st'"
  using createSymbolDatabase_flag[OF assms] by (simp add: createSymbolDatabase_def)

theorem createSymbolDatabase_idempotent_witness:
  "\<exists>st. createSymbolDatabase 20
           (tokenize [''struct'', ''S'', ''{'', ''int'', ''x'', '';'', ''S'', ''('', '')'', '';'', ''}'',
              '';'', ''S'', ''::'', ''S'', ''('', '')'', ''{'', ''}'']) CheckClass_new = Some st
        \<and> map (\<lambda>info. (className info, numConstructors info)) (scopes st) = [(''S'', 1)]
        \<and> createSymbolDatabase 20
           (tokenize [''struct'', ''S'', ''{'', ''int'', ''x'', '';'', ''S'', ''('', '')'', '';'', ''}'',
              '';'', ''S'', ''::'', ''S'', ''('', '')'', ''{'', ''}'']) st = Some st"
proof -
  let ?toks = "tokenize [''struct'', ''S'', ''{'', ''int'', ''x'', '';'', ''S'', ''('', '')'', '';'', ''}'',
              '';'', ''S'', ''::'', ''S'', ''('', '')'', ''{'', ''}'']"
  have "map_option (\<lambda>st. map (\<lambda>info. (className info, numConstructors info)) (scopes st))
          (createSymbolDatabase 20 ?toks CheckClass_new) = Some [(''S'', 1)]"
    by code_simp
  then obtain st where run: "createSymbolDatabase 20 ?toks CheckClass_new = Some st"
    and m: "map (\<lambda>info. (className info, numConstructors info)) (scopes st) = [(''S'', 1)]"
    by auto
  from createSymbolDatabase_idempotent[OF run, of 20] run m show ?thesis
    by (intro conjI exI[of _ st])
qed

section \<open>initializeVarList\<close>

fun initVar :: "Var list \<Rightarrow> string \<Rightarrow> Var list" where
  "initVar [] varname = []"
| "initVar (var # vlist) varname =
     (if name var = varname then var\<lparr>init := True\<rparr> # vlist else var # initVar vlist varname)"

text \<open>\<^verbatim>\<open>for (Var *var = vlist; var; var = var->next) var->init = true;\<close>\<close>

definition init_all :: "Var list \<Rightarrow> Var list" where
  "init_all vlist = map (\<lambda>var. var\<lparr>init := True\<rparr>) vlist"

text \<open>The initializer list of a constructor: \<^verbatim>\<open>: var(value)\<close> and \<^verbatim>\<open>: var(value = x)\<close>.\<close>

definition initializer_list :: "token list \<Rightarrow> nat \<Rightarrow> bool \<Rightarrow> Var list \<Rightarrow> Var list" where
  "initializer_list toks ftok Assign vlist =
     (if Assign \<and> Match toks (Tok ftok) [pVar, pLit ''('']
      then (if Match toks (tokAt toks ftok 2) [pVar, pLit ''='']
            then initVar (initVar vlist (strAt toks ftok 0)) (strAt toks ftok 2)
            else initVar vlist (strAt toks ftok 0))
      else vlist)"

text \<open>"Passing this": the walk from the closing parenthesis of the call back to \<open>ftok\<close>.\<close>

function passes_this :: "token list \<Rightarrow> ptr \<Rightarrow> nat \<Rightarrow> bool option" where
  "passes_this toks tok2 ftok =
     (case tok2 of
        Null \<Rightarrow> Some False
      | Tok t \<Rightarrow>
          if t = ftok then Some False
          else if length toks \<le> t then None
          else if str (toks ! t) = ''this'' then Some True
          else passes_this toks (tok_previous toks t) ftok)"
  by pat_completeness auto
termination
  by (relation "measure (\<lambda>(toks, tok2, ftok). case tok2 of Null \<Rightarrow> 0 | Tok t \<Rightarrow> Suc t)")
     (auto simp: tok_previous_def split: if_splits)

declare passes_this.simps [simp del]

text \<open>"check if the function is part of this class": the walk to the \<^verbatim>\<open>{\<close> of the class,
  which notes a \<^verbatim>\<open>:\<close>, and the walk over the members of the class. The result of
  \<open>member_scan\<close> is \<open>tok\<close> after the loop.\<close>

function class_open :: "token list \<Rightarrow> ptr \<Rightarrow> bool \<Rightarrow> ptr \<times> bool" where
  "class_open toks tok derived =
     (case tok of
        Null \<Rightarrow> (Null, derived)
      | Tok t \<Rightarrow>
          if length toks \<le> t \<or> str (toks ! t) = ''{'' then (tok, derived)
          else class_open toks (tok_next toks t) (derived \<or> str (toks ! t) = '':''))"
  by pat_completeness auto
termination
  by (relation "measure (\<lambda>(toks, tok, derived). case tok of Null \<Rightarrow> 0 | Tok t \<Rightarrow> Suc (length toks - t))")
     (auto simp: tok_next_def)

declare class_open.simps [simp del]

fun member_scan :: "nat \<Rightarrow> token list \<Rightarrow> ptr \<Rightarrow> string \<Rightarrow> ptr option" where
  "member_scan 0 toks tok fname = None"
| "member_scan (Suc n) toks tok fname =
     (case deref toks tok of
        None \<Rightarrow> (if tok = Null then Some Null else None)
      | Some t \<Rightarrow>
          if str (toks ! t) = ''{'' then
            (case link (toks ! t) of
               Null \<Rightarrow> Some Null
             | Tok l \<Rightarrow> (case next_of toks (Tok l) of
                           None \<Rightarrow> None
                         | Some nx \<Rightarrow> member_scan n toks nx fname))
          else if str (toks ! t) = ''}'' then Some (Tok t)
          else if str (toks ! t) = fname \<or> str (toks ! t) = ''friend'' then
            (case str_of toks (tok_next toks t) of
               None \<Rightarrow> None
             | Some s \<Rightarrow>
                 if s = ''('' \<or> str (toks ! t) = ''friend'' then Some Null
                 else member_scan n toks (tok_next toks t) fname)
          else member_scan n toks (tok_next toks t) fname)"

text \<open>"assume all variables that are passed to it are initialized".\<close>

function init_args :: "token list \<Rightarrow> ptr \<Rightarrow> nat \<Rightarrow> Var list \<Rightarrow> Var list" where
  "init_args toks tok indentlevel2 vlist =
     (case deref toks tok of
        None \<Rightarrow> vlist
      | Some t \<Rightarrow>
          if str (toks ! t) = '')'' \<and> indentlevel2 = 0 then vlist
          else init_args toks (tok_next toks t)
                 (if str (toks ! t) = ''('' then Suc indentlevel2
                  else if str (toks ! t) = '')'' then indentlevel2 - 1
                  else indentlevel2)
                 (if isName (toks ! t) then initVar vlist (str (toks ! t)) else vlist))"
  by pat_completeness auto
termination
  by (relation "measure (\<lambda>(toks, tok, l, v). case tok of Null \<Rightarrow> 0 | Tok t \<Rightarrow> Suc (length toks - t))")
     (auto simp: tok_next_def deref_Some)

declare init_args.simps [simp del]

text \<open>
  One round of the \<^verbatim>\<open>for\<close> loop of \<^verbatim>\<open>initializeVarList\<close> ends the function (\<open>Stop\<close>, with
  \<open>False\<close> where it ends by a null pointer), goes on to the next round (\<open>Next\<close>, with
  \<open>ftok\<close>, \<open>Assign\<close> and \<open>indentlevel\<close>), or first calls \<^verbatim>\<open>initializeVarList\<close> for a member
  function (\<open>Call\<close>, with the token and the name of the function). Each carries the
  variable list.

  \<^verbatim>\<open>Tokenizer::findClassFunction\<close> is the parameter \<open>fcf\<close>.
\<close>

datatype ivl_step =
    Stop bool "Var list"
  | Next ptr bool nat "Var list"
  | Call nat string ptr bool nat "Var list"

type_synonym findClassFunction = "nat \<Rightarrow> string \<Rightarrow> string \<Rightarrow> bool \<Rightarrow> ptr"

text \<open>"Calling member function?"\<close>

definition ivl_call ::
  "nat \<Rightarrow> token list \<Rightarrow> findClassFunction \<Rightarrow> nat \<Rightarrow> string \<Rightarrow> bool \<Rightarrow> nat \<Rightarrow> bool \<Rightarrow> nat
   \<Rightarrow> Var list \<Rightarrow> string list \<Rightarrow> ivl_step" where
  "ivl_call n toks fcf tok1 classname isStruct ftok Assign indentlevel vlist callstack =
     (case passes_this toks (link (toks ! Suc ftok)) ftok of
        None \<Rightarrow> Stop False vlist
      | Some True \<Rightarrow> Stop True (init_all vlist)
      | Some False \<Rightarrow>
          if str (toks ! ftok) \<in> set callstack then Stop True (init_all vlist)
          else (case fcf tok1 classname (str (toks ! ftok)) isStruct of
             Tok ftok2 \<Rightarrow> Call ftok2 (str (toks ! ftok)) (Tok ftok) Assign indentlevel vlist
           | Null \<Rightarrow>
               (case class_open toks
                       (findmatch toks (Tok 0)
                          [pLit (str (toks ! tok1)), pLit classname, pAlt [''{'', '':'']] Null)
                       False of
                  (tok, derived) \<Rightarrow>
                    (case member_scan n toks (case tok of Null \<Rightarrow> Null | Tok t \<Rightarrow> tok_next toks t)
                            (str (toks ! ftok)) of
                       None \<Rightarrow> Stop False vlist
                     | Some tok' \<Rightarrow>
                         if tok' = Null \<or> derived then Stop True (init_all vlist)
                         else Next (Tok ftok) Assign indentlevel
                                (init_args toks (tokAt toks ftok 2) 0 vlist)))))"

text \<open>The statement at \<open>ftok\<close>, after "this->", "( * this ) ." and "classname ::" are
  skipped.\<close>

definition ivl_assignment :: "token list \<Rightarrow> ptr \<Rightarrow> Var list \<Rightarrow> Var list" where
  "ivl_assignment toks p vlist =
     (case p of
        Null \<Rightarrow> vlist
      | Tok f \<Rightarrow>
          (let vlist' =
                 (if Match toks p [pVar, pLit ''=''] then initVar vlist (strAt toks f 0)
                  else if Match toks p [pVar, pLit ''['', pAny, pLit '']'', pLit ''='']
                    then initVar vlist (strAt toks f 0)
                  else if Match toks p [pVar, pLit ''['', pAny, pLit '']'', pLit ''['', pAny,
                                         pLit '']'', pLit ''='']
                    then initVar vlist (strAt toks f 0)
                  else if Match toks p [pLit ''*'', pVar, pLit ''='']
                    then initVar vlist (strAt toks f 1)
                  else if Match toks p [pVar, pLit ''.'', pAny, pLit ''='']
                    then initVar vlist (strAt toks f 0)
                  else vlist)
           in if Match toks p [pVar, pLit ''.'', pAlt [''clear'', ''Clear''], pLit ''('']
              then initVar vlist' (strAt toks f 0)
              else vlist'))"

definition ivl_action ::
  "nat \<Rightarrow> token list \<Rightarrow> findClassFunction \<Rightarrow> nat \<Rightarrow> string \<Rightarrow> bool \<Rightarrow> ptr \<Rightarrow> bool \<Rightarrow> nat
   \<Rightarrow> Var list \<Rightarrow> string list \<Rightarrow> ivl_step" where
  "ivl_action n toks fcf tok1 classname isStruct p Assign indentlevel vlist callstack =
     (if Match toks p [pLit ''memset'', pLit ''('', pLit ''this'', pLit '',''] then
        Stop True (init_all vlist)
      else if Match toks p [pLit ''memset'', pLit ''('', pVar, pLit '',''] then
        (case p of
           Null \<Rightarrow> Stop False vlist
         | Tok f \<Rightarrow> Next (link (toks ! Suc f)) Assign indentlevel
                      (initVar vlist (strAt toks f 2)))
      else if Match toks p [pVar, pLit ''(''] \<and> str_of toks p \<noteq> Some ''if'' then
        (case p of
           Null \<Rightarrow> Stop False vlist
         | Tok f \<Rightarrow> ivl_call n toks fcf tok1 classname isStruct f Assign indentlevel vlist callstack)
      else Next p Assign indentlevel (ivl_assignment toks p vlist))"

definition ivl_statement ::
  "nat \<Rightarrow> token list \<Rightarrow> findClassFunction \<Rightarrow> nat \<Rightarrow> string \<Rightarrow> bool \<Rightarrow> nat \<Rightarrow> bool \<Rightarrow> nat
   \<Rightarrow> Var list \<Rightarrow> string list \<Rightarrow> ivl_step" where
  "ivl_statement n toks fcf tok1 classname isStruct ftok Assign indentlevel vlist callstack =
     (let f1 = (if Match toks (Tok ftok) [pLit ''('', pLit ''!''] then Suc ftok else ftok) in
      if Match toks (tok_next toks f1) [pLit ''*'', pLit ''this'', pLit ''=''] then
        Stop True (init_all vlist)
      else
        (let f2 = (if Match toks (tok_next toks f1) [pVar, pLit ''.'', pVar, pLit ''('']
                   then f1 + 2 else f1) in
         if \<not> Match toks (tok_next toks f2) [pVar]
            \<and> \<not> Match toks (tok_next toks f2) [pLit ''this'', pLit ''.'', pVar]
            \<and> \<not> Match toks (tok_next toks f2) [pLit ''*'', pVar, pLit ''='']
            \<and> \<not> Match toks (tok_next toks f2) [pLit ''('', pLit ''*'', pLit ''this'', pLit '')'',
                                                  pLit ''.'', pVar]
         then Next (Tok f2) Assign indentlevel vlist
         else
           (let p3 = (if Match toks (Tok (Suc f2))
                           [pLit ''('', pLit ''*'', pLit ''this'', pLit '')'', pLit ''.'']
                      then tokAt toks (Suc f2) 5 else Tok (Suc f2));
                p4 = (case p3 of
                        Null \<Rightarrow> Null
                      | Tok x \<Rightarrow> if Match toks p3 [pLit ''this'', pLit ''.''] then tokAt toks x 2
                                 else p3);
                p5 = (case p4 of
                        Null \<Rightarrow> Null
                      | Tok x \<Rightarrow> if Match toks p4 [pVar, pLit ''::''] then tokAt toks x 2 else p4)
            in ivl_action n toks fcf tok1 classname isStruct p5 Assign indentlevel vlist
                 callstack)))"

definition initializeVarList_body ::
  "nat \<Rightarrow> token list \<Rightarrow> findClassFunction \<Rightarrow> nat \<Rightarrow> string \<Rightarrow> bool \<Rightarrow> nat \<Rightarrow> bool \<Rightarrow> nat
   \<Rightarrow> Var list \<Rightarrow> string list \<Rightarrow> ivl_step" where
  "initializeVarList_body n toks fcf tok1 classname isStruct ftok Assign indentlevel vlist callstack =
     (if tok_next toks ftok = Null then Stop True vlist
      else
        (let varlist1 = (if indentlevel = 0 then initializer_list toks ftok Assign vlist
                         else vlist);
             Assign1 = (if indentlevel = 0 then Assign \<or> str (toks ! ftok) = '':'' else Assign)
         in if str (toks ! ftok) = ''}'' \<and> indentlevel \<le> 1 then Stop True varlist1
            else
              (let indentlevel1 = (if str (toks ! ftok) = ''{'' then Suc indentlevel
                                   else if str (toks ! ftok) = ''}'' then indentlevel - 1
                                   else indentlevel);
                   Assign2 = (if str (toks ! ftok) = ''{'' then False else Assign1)
               in if indentlevel1 < 1 then Next (Tok ftok) Assign2 indentlevel1 varlist1
                  else
                    (let varlist2 = (if Match toks (Tok ftok) [pLit ''>>'', pVar]
                                     then initVar varlist1 (strAt toks ftok 1) else varlist1)
                     in if \<not> Match toks (Tok ftok) [pAlt [''{'', ''}'', '';'', ''('', '')'', ''='']]
                        then Next (Tok ftok) Assign2 indentlevel1 varlist2
                        else ivl_statement n toks fcf tok1 classname isStruct ftok Assign2
                               indentlevel1 varlist2 callstack))))"

primrec initializeVarList_loop ::
  "nat \<Rightarrow> token list \<Rightarrow> findClassFunction \<Rightarrow> nat \<Rightarrow> string \<Rightarrow> bool \<Rightarrow> nat \<Rightarrow> bool \<Rightarrow> nat
   \<Rightarrow> Var list \<Rightarrow> string list \<Rightarrow> bool \<times> Var list" where
  "initializeVarList_loop 0 toks fcf tok1 classname isStruct ftok Assign indentlevel vlist callstack =
     (False, vlist)"
| "initializeVarList_loop (Suc n) toks fcf tok1 classname isStruct ftok Assign indentlevel vlist callstack =
     (case (case initializeVarList_body n toks fcf tok1 classname isStruct ftok Assign indentlevel
                  vlist callstack of
              Call ftok2 fname p Assign' indentlevel' vlist' \<Rightarrow>
                (case initializeVarList_loop n toks fcf tok1 classname isStruct ftok2 False 0 vlist'
                        (callstack @ [fname]) of
                   (finished, vlist'') \<Rightarrow>
                     if finished then Next p Assign' indentlevel' vlist'' else Stop False vlist'')
            | step \<Rightarrow> step) of
        Stop finished vlist' \<Rightarrow> (finished, vlist')
      | Next p Assign' indentlevel' vlist' \<Rightarrow>
          (case deref toks p of
             None \<Rightarrow> (False, vlist')
           | Some t \<Rightarrow>
               (case tok_next toks t of
                  Null \<Rightarrow> (True, vlist')
                | Tok t' \<Rightarrow>
                    initializeVarList_loop n toks fcf tok1 classname isStruct t' Assign' indentlevel'
                      vlist' callstack))
      | Call ftok2 fname p Assign' indentlevel' vlist' \<Rightarrow> (False, vlist'))"

definition initializeVarList ::
  "nat \<Rightarrow> token list \<Rightarrow> findClassFunction \<Rightarrow> nat \<Rightarrow> nat \<Rightarrow> Var list \<Rightarrow> string list \<Rightarrow> bool \<times> Var list" where
  "initializeVarList n toks fcf tok1 ftok vlist callstack =
     (case str_of toks (tok_next toks tok1) of
        None \<Rightarrow> (False, vlist)
      | Some classname \<Rightarrow>
          initializeVarList_loop n toks fcf tok1 classname (str (toks ! tok1) = ''struct'') ftok
            False 0 vlist callstack)"


subsection \<open>The init flags only grow\<close>

text \<open>\<open>init_grows vs vs'\<close>: the list \<open>vs'\<close> is the list \<open>vs\<close> with \<open>init\<close> set to \<open>True\<close> in
  some of its variables and nothing else changed.\<close>

definition init_grows :: "Var list \<Rightarrow> Var list \<Rightarrow> bool" where
  "init_grows vs vs' = list_all2 (\<lambda>v v'. v' = v \<or> v' = v\<lparr>init := True\<rparr>) vs vs'"

lemma init_grows_refl: "init_grows vs vs"
  by (simp add: init_grows_def list_all2_refl)

lemma init_grows_trans:
  assumes "init_grows us vs" and "init_grows vs ws"
  shows "init_grows us ws"
proof -
  have "c = a \<or> c = a\<lparr>init := True\<rparr>"
    if "b = a \<or> b = a\<lparr>init := True\<rparr>" "c = b \<or> c = b\<lparr>init := True\<rparr>" for a b c :: Var
    using that by auto
  from list_all2_trans[OF this assms[unfolded init_grows_def]] show ?thesis
    by (simp add: init_grows_def)
qed

lemma init_grows_initVar_step: "init_grows vs (initVar vs s)"
  by (induction vs) (auto simp: init_grows_def list_all2_refl)

lemma init_grows_init_all_step: "init_grows vs (init_all vs)"
  by (simp add: init_grows_def init_all_def list_all2_map2 list_all2_refl)

lemma ig_initVar: "init_grows vs ws \<Longrightarrow> init_grows vs (initVar ws s)"
  by (erule init_grows_trans) (rule init_grows_initVar_step)

lemma ig_init_all: "init_grows vs ws \<Longrightarrow> init_grows vs (init_all ws)"
  by (erule init_grows_trans) (rule init_grows_init_all_step)

lemma ig_if:
  "(c \<Longrightarrow> init_grows vs a) \<Longrightarrow> (\<not> c \<Longrightarrow> init_grows vs b) \<Longrightarrow> init_grows vs (if c then a else b)"
  by simp

lemma ig_initializer_list:
  "init_grows vs ws \<Longrightarrow> init_grows vs (initializer_list toks ftok Assign ws)"
  unfolding initializer_list_def by (intro ig_if ig_initVar)

lemma ig_init_args: "init_grows vs ws \<Longrightarrow> init_grows vs (init_args toks tok l ws)"
proof (induction toks tok l ws rule: init_args.induct)
  case (1 toks tok l ws)
  show ?case
  proof (cases "deref toks tok")
    case None
    with "1.prems" show ?thesis by (simp add: init_args.simps[of toks tok])
  next
    case (Some t)
    show ?thesis
    proof (cases "str (toks ! t) = '')'' \<and> l = 0")
      case True
      with Some "1.prems" show ?thesis by (simp add: init_args.simps[of toks tok])
    next
      case False
      have "init_grows vs (if isName (toks ! t) then initVar ws (str (toks ! t)) else ws)"
        using "1.prems" by (intro ig_if ig_initVar)
      from "1.IH"[OF Some False this] show ?thesis
        by (simp add: init_args.simps[of toks tok] Some False)
    qed
  qed
qed

lemma ig_ivl_assignment: "init_grows vs ws \<Longrightarrow> init_grows vs (ivl_assignment toks p ws)"
  unfolding ivl_assignment_def Let_def
  by (cases p) (simp, simp only: ptr.case, intro ig_if ig_initVar)

definition step_grows :: "Var list \<Rightarrow> ivl_step \<Rightarrow> bool" where
  "step_grows vs step =
     (case step of
        Stop finished ws \<Rightarrow> init_grows vs ws
      | Next p a l ws \<Rightarrow> init_grows vs ws
      | Call ftok2 fname p a l ws \<Rightarrow> init_grows vs ws)"

lemma sg_Stop: "init_grows vs ws \<Longrightarrow> step_grows vs (Stop b ws)"
  and sg_Next: "init_grows vs ws \<Longrightarrow> step_grows vs (Next p a l ws)"
  and sg_Call: "init_grows vs ws \<Longrightarrow> step_grows vs (Call f2 fn p a l ws)"
  by (simp_all add: step_grows_def)

lemma sg_if:
  "(c \<Longrightarrow> step_grows vs x) \<Longrightarrow> (\<not> c \<Longrightarrow> step_grows vs y) \<Longrightarrow> step_grows vs (if c then x else y)"
  by simp

lemma sg_option:
  "step_grows vs x \<Longrightarrow> (\<And>a. step_grows vs (f a))
   \<Longrightarrow> step_grows vs (case opt of None \<Rightarrow> x | Some a \<Rightarrow> f a)"
  by (cases opt) simp_all

lemma sg_bool:
  "step_grows vs x \<Longrightarrow> step_grows vs y \<Longrightarrow> step_grows vs (case b of True \<Rightarrow> x | False \<Rightarrow> y)"
  by (cases b) simp_all

lemma sg_ptr:
  "step_grows vs x \<Longrightarrow> (\<And>a. step_grows vs (f a))
   \<Longrightarrow> step_grows vs (case p of Null \<Rightarrow> x | Tok a \<Rightarrow> f a)"
  by (cases p) simp_all

lemma sg_prod: "(\<And>a b. step_grows vs (f a b)) \<Longrightarrow> step_grows vs (case pr of (a, b) \<Rightarrow> f a b)"
  by (cases pr) simp

lemmas sg_intros = sg_if sg_option sg_bool sg_ptr sg_prod sg_Stop sg_Next sg_Call
  ig_if ig_initVar ig_init_all ig_initializer_list ig_init_args ig_ivl_assignment

lemma sg_ivl_call:
  "init_grows vs ws
   \<Longrightarrow> step_grows vs (ivl_call n toks fcf tok1 classname isStruct ftok Assign indentlevel ws callstack)"
  unfolding ivl_call_def by (intro sg_intros)

lemma sg_ivl_action:
  "init_grows vs ws
   \<Longrightarrow> step_grows vs (ivl_action n toks fcf tok1 classname isStruct p Assign indentlevel ws callstack)"
  unfolding ivl_action_def by (intro sg_intros sg_ivl_call)

lemma sg_ivl_statement:
  "init_grows vs ws
   \<Longrightarrow> step_grows vs (ivl_statement n toks fcf tok1 classname isStruct ftok Assign indentlevel ws callstack)"
  unfolding ivl_statement_def Let_def by (intro sg_intros sg_ivl_action)

lemma sg_initializeVarList_body:
  "init_grows vs ws
   \<Longrightarrow> step_grows vs (initializeVarList_body n toks fcf tok1 classname isStruct ftok Assign indentlevel ws callstack)"
  unfolding initializeVarList_body_def Let_def by (intro sg_intros sg_ivl_statement)

lemma initializeVarList_loop_grows:
  "init_grows vs ws
   \<Longrightarrow> init_grows vs (snd (initializeVarList_loop n toks fcf tok1 classname isStruct ftok Assign
                              indentlevel ws callstack))"
proof (induction n arbitrary: ftok Assign indentlevel ws callstack)
  case 0
  then show ?case by simp
next
  case (Suc n)
  let ?body = "initializeVarList_body n toks fcf tok1 classname isStruct ftok Assign indentlevel ws callstack"
  have after: "init_grows vs (snd (case deref toks p of
             None \<Rightarrow> (False, xs)
           | Some t \<Rightarrow>
               (case tok_next toks t of
                  Null \<Rightarrow> (True, xs)
                | Tok t' \<Rightarrow>
                    initializeVarList_loop n toks fcf tok1 classname isStruct t' a l xs callstack)))"
    if "init_grows vs xs" for p a l xs
    using that Suc.IH[OF that] by (auto split: option.split ptr.split)
  from sg_initializeVarList_body[OF Suc.prems] have sg: "step_grows vs ?body" .
  show ?case
  proof (cases ?body)
    case (Stop b xs)
    with sg show ?thesis by (simp add: step_grows_def)
  next
    case (Next p a l xs)
    with sg have "init_grows vs xs" by (simp add: step_grows_def)
    from after[OF this] Next show ?thesis by simp
  next
    case (Call f2 fname p a l xs)
    with sg have x: "init_grows vs xs" by (simp add: step_grows_def)
    obtain b ys where r: "initializeVarList_loop n toks fcf tok1 classname isStruct f2 False 0 xs
                            (callstack @ [fname]) = (b, ys)"
      by (cases "initializeVarList_loop n toks fcf tok1 classname isStruct f2 False 0 xs
                   (callstack @ [fname])")
    from Suc.IH[OF x, of f2 False 0 "callstack @ [fname]"] r have y: "init_grows vs ys" by simp
    show ?thesis
    proof (cases b)
      case True
      with Call r after[OF y] show ?thesis by simp
    next
      case False
      with Call r y show ?thesis by simp
    qed
  qed
qed

text \<open>
  C10 (the dataflow is monotone in the init flags). Whatever the token list, the
  function that \<^verbatim>\<open>findClassFunction\<close> computes, the call stack and the number of rounds:
  the variable list that \<^verbatim>\<open>initializeVarList\<close> has reached when it stops, calls of itself
  included, is the list it started from with \<open>init\<close> set to \<open>True\<close> in some of the
  variables. No variable is added, removed or otherwise changed, and no \<open>init\<close> that was
  \<open>True\<close> is \<open>False\<close> afterwards.
\<close>

theorem initializeVarList_init_grows:
  "init_grows vlist (snd (initializeVarList n toks fcf tok1 ftok vlist callstack))"
  unfolding initializeVarList_def
  by (cases "str_of toks (tok_next toks tok1)")
     (simp_all add: init_grows_refl initializeVarList_loop_grows)

text \<open>A constructor that assigns one of two members: the analysis comes to its end, and
  \<open>init\<close> is \<open>True\<close> for that member only.\<close>

lemma initializeVarList_example:
  "map_option (\<lambda>vlist. map_prod id (map (\<lambda>var. (name var, init var)))
       (initializeVarList 20
          (tokenize [''class'', ''A'', ''{'', ''A'', ''('', '')'', ''{'', ''x'', ''='', ''0'', '';'', ''}'',
             ''int'', ''x'', '';'', ''int'', ''y'', '';'', ''}'', '';''])
          (\<lambda>tok1 classname funcname isStruct. Null) 0 3 vlist []))
     (getVarList 20
        (tokenize [''class'', ''A'', ''{'', ''A'', ''('', '')'', ''{'', ''x'', ''='', ''0'', '';'', ''}'',
           ''int'', ''x'', '';'', ''int'', ''y'', '';'', ''}'', '';'']) 0)
   = Some (True, [(''y'', False), (''x'', True)])"
  by code_simp

section \<open>The checks\<close>

text \<open>
  A check reports through \<^verbatim>\<open>reportError(tok, severity, id, msg)\<close>. A report is the record
  of these arguments, and a check gives the list of its reports in the order in which it
  makes them, together with \<open>False\<close> where it does not come to its end (it dereferences
  a null pointer, or a loop does not end within the given number of rounds): the reports
  are then those made until there.
\<close>

datatype Severity = error | style

record ErrorMessage =
  etok :: nat
  severity :: Severity
  eid :: string
  emsg :: string

record Settings =
  checkCodingStyle :: bool
  inconclusive :: bool

definition noConstructorError :: "nat \<Rightarrow> string \<Rightarrow> bool \<Rightarrow> ErrorMessage" where
  "noConstructorError tok classname isStruct =
     \<lparr>etok = tok, severity = style, eid = ''noConstructor'',
      emsg = ''The '' @ (if isStruct then ''struct'' else ''class'') @ '' '' @ [CHR 0x27] @ classname
             @ [CHR 0x27] @ '' has no constructor. Member variables not initialized.''\<rparr>"

definition uninitVarError :: "nat \<Rightarrow> string \<Rightarrow> string \<Rightarrow> ErrorMessage" where
  "uninitVarError tok classname varname =
     \<lparr>etok = tok, severity = style, eid = ''uninitVar'',
      emsg = ''Member variable not initialized in the constructor '' @ [CHR 0x27] @ classname
             @ ''::'' @ varname @ [CHR 0x27]\<rparr>"

definition operatorEqVarError :: "nat \<Rightarrow> string \<Rightarrow> string \<Rightarrow> ErrorMessage" where
  "operatorEqVarError tok classname varname =
     \<lparr>etok = tok, severity = style, eid = ''operatorEqVarError'',
      emsg = ''Member variable '' @ [CHR 0x27] @ classname @ ''::'' @ varname @ [CHR 0x27]
             @ '' is not assigned a value in '' @ [CHR 0x27] @ classname @ ''::operator=''
             @ [CHR 0x27]\<rparr>"

subsection \<open>constructors\<close>

text \<open>"There are no constructors."\<close>

definition noConstructor_check :: "token list \<Rightarrow> SpaceInfo \<Rightarrow> ErrorMessage list" where
  "noConstructor_check toks info =
     (if numConstructors info = 0
         \<and> list_ex (\<lambda>var. priv var \<and> \<not> isClass var \<and> \<not> Var.isStatic var) (varlist info)
      then [noConstructorError (classDef info) (className info)
              (str (toks ! classDef info) = ''struct'')]
      else [])"

text \<open>The loop that sets \<^verbatim>\<open>classNameUsed\<close>, from \<^verbatim>\<open>operStart\<close> to \<^verbatim>\<open>operStart->link()\<close>.\<close>

definition operStart :: "token list \<Rightarrow> Func \<Rightarrow> ptr" where
  "operStart toks func =
     (if str (toks ! token func) = ''='' then tokAt toks (token func) 1
      else tokAt toks (token func) 3)"

function classNameUsed :: "token list \<Rightarrow> ptr \<Rightarrow> ptr \<Rightarrow> string \<Rightarrow> bool option" where
  "classNameUsed toks operTok end cname =
     (if operTok = end then Some False
      else (case deref toks operTok of
              None \<Rightarrow> None
            | Some t \<Rightarrow>
                if str (toks ! t) = cname then Some True
                else classNameUsed toks (tok_next toks t) end cname))"
  by pat_completeness auto
termination
  by (relation "measure (\<lambda>(toks, p, e, c). case p of Null \<Rightarrow> 0 | Tok t \<Rightarrow> Suc (length toks - t))")
     (auto simp: tok_next_def deref_Some)

declare classNameUsed.simps [simp del]

text \<open>"Check if any variables are uninitialized": the reports for one variable, and the
  loop over the variables.\<close>

definition uninit_var_check :: "token list \<Rightarrow> SpaceInfo \<Rightarrow> Func \<Rightarrow> Var \<Rightarrow> ErrorMessage list option" where
  "uninit_var_check toks info func var =
     (if isClass var \<and> type func = Constructor then Some []
      else if init var \<or> Var.isStatic var then Some []
      else if type func = OperatorEqual then
        (case link_of toks (operStart toks func) of
           None \<Rightarrow> None
         | Some end \<Rightarrow>
             (case classNameUsed toks (operStart toks func) end (className info) of
                None \<Rightarrow> None
              | Some used \<Rightarrow>
                  if used then Some [operatorEqVarError (token func) (className info) (name var)]
                  else Some []))
      else if Func.access func \<noteq> Private \<and> \<not> Var.isStatic var then
        Some [uninitVarError (token func) (className info) (name var)]
      else Some [])"

fun uninit_vars_check :: "token list \<Rightarrow> SpaceInfo \<Rightarrow> Func \<Rightarrow> Var list \<Rightarrow> bool \<times> ErrorMessage list" where
  "uninit_vars_check toks info func [] = (True, [])"
| "uninit_vars_check toks info func (var # vars) =
     (case uninit_var_check toks info func var of
        None \<Rightarrow> (False, [])
      | Some errs \<Rightarrow>
          (case uninit_vars_check toks info func vars of
             (finished, errs') \<Rightarrow> (finished, errs @ errs')))"

text \<open>The body of the loop over \<^verbatim>\<open>functionList\<close>, and the loop. The variable list of the
  scope changes with them (the \<open>init\<close> flags).\<close>

definition constructors_function ::
  "nat \<Rightarrow> token list \<Rightarrow> findClassFunction \<Rightarrow> SpaceInfo \<Rightarrow> Func \<Rightarrow> Var list
   \<Rightarrow> bool \<times> ErrorMessage list \<times> Var list" where
  "constructors_function n toks fcf info func vlist =
     (if \<not> hasBody func
         \<or> \<not> (type func = Constructor \<or> type func = CopyConstructor \<or> type func = OperatorEqual)
      then (True, [], vlist)
      else (case initializeVarList n toks fcf (classDef info) (token func)
                   (map (\<lambda>var. var\<lparr>init := False\<rparr>) vlist) [] of
              (finished, vlist') \<Rightarrow>
                if finished
                then (case uninit_vars_check toks info func vlist' of
                        (finished', errs) \<Rightarrow> (finished', errs, vlist'))
                else (False, [], vlist')))"

fun constructors_functions ::
  "nat \<Rightarrow> token list \<Rightarrow> findClassFunction \<Rightarrow> SpaceInfo \<Rightarrow> Func list \<Rightarrow> Var list
   \<Rightarrow> bool \<times> ErrorMessage list \<times> Var list" where
  "constructors_functions n toks fcf info [] vlist = (True, [], vlist)"
| "constructors_functions n toks fcf info (func # funcs) vlist =
     (case constructors_function n toks fcf info func vlist of
        (finished, errs, vlist') \<Rightarrow>
          if finished
          then (case constructors_functions n toks fcf info funcs vlist' of
                  (finished', errs', vlist'') \<Rightarrow> (finished', errs @ errs', vlist''))
          else (False, errs, vlist'))"

text \<open>The body of the loop over \<^verbatim>\<open>spaceInfoMMap\<close>, the loop, and the check.\<close>

definition constructors_scope ::
  "nat \<Rightarrow> token list \<Rightarrow> findClassFunction \<Rightarrow> SpaceInfo \<Rightarrow> bool \<times> ErrorMessage list \<times> SpaceInfo" where
  "constructors_scope n toks fcf info =
     (case constructors_functions n toks fcf info (functionList info) (varlist info) of
        (finished, errs, vlist') \<Rightarrow>
          (finished, noConstructor_check toks info @ errs, info\<lparr>varlist := vlist'\<rparr>))"

fun constructors_scopes ::
  "nat \<Rightarrow> token list \<Rightarrow> findClassFunction \<Rightarrow> (string \<times> nat) list \<Rightarrow> CheckClass
   \<Rightarrow> bool \<times> ErrorMessage list \<times> CheckClass" where
  "constructors_scopes n toks fcf [] st = (True, [], st)"
| "constructors_scopes n toks fcf (e # es) st =
     (case constructors_scope n toks fcf (spaceInfos st ! snd e) of
        (finished, errs, info') \<Rightarrow>
          (let st' = st\<lparr>spaceInfos := (spaceInfos st)[snd e := info']\<rparr>
           in if finished
              then (case constructors_scopes n toks fcf es st' of
                      (finished', errs', st'') \<Rightarrow> (finished', errs @ errs', st''))
              else (False, errs, st')))"

definition constructors ::
  "nat \<Rightarrow> token list \<Rightarrow> findClassFunction \<Rightarrow> Settings \<Rightarrow> CheckClass
   \<Rightarrow> bool \<times> ErrorMessage list \<times> CheckClass" where
  "constructors n toks fcf settings st =
     (if \<not> checkCodingStyle settings then (True, [], st)
      else (case createSymbolDatabase n toks st of
              None \<Rightarrow> (False, [], st)
            | Some st' \<Rightarrow> constructors_scopes n toks fcf (spaceInfoMMap st') st'))"








lemma classNameUsed_range:
  "s \<le> e \<Longrightarrow> e < length toks
   \<Longrightarrow> classNameUsed toks (Tok s) (Tok e) c = Some (\<exists>k. s \<le> k \<and> k < e \<and> str (toks ! k) = c)"
proof (induction "e - s" arbitrary: s)
  case 0
  then show ?case by (simp add: classNameUsed.simps[of toks "Tok s"])
next
  case (Suc d)
  then have s: "s < e" "s < length toks" "tok_next toks s = Tok (Suc s)"
    by (simp_all add: tok_next_def)
  show ?case
  proof (cases "str (toks ! s) = c")
    case True
    with s have "\<exists>k. s \<le> k \<and> k < e \<and> str (toks ! k) = c" by auto
    with True s show ?thesis by (simp add: classNameUsed.simps[of toks "Tok s"] deref_def)
  next
    case False
    from Suc.hyps(2) s have "d = e - Suc s" "Suc s \<le> e" by simp_all
    from Suc.hyps(1)[OF this Suc.prems(2)]
    have "classNameUsed toks (Tok (Suc s)) (Tok e) c
            = Some (\<exists>k. Suc s \<le> k \<and> k < e \<and> str (toks ! k) = c)" .
    moreover have "(\<exists>k. Suc s \<le> k \<and> k < e \<and> str (toks ! k) = c)
                   \<longleftrightarrow> (\<exists>k. s \<le> k \<and> k < e \<and> str (toks ! k) = c)"
      using False by (metis Suc_leD Suc_leI le_neq_implies_less)
    ultimately show ?thesis
      using False s by (simp add: classNameUsed.simps[of toks "Tok s"] deref_def)
  qed
qed

text \<open>
  C2 (for \<^verbatim>\<open>operator=\<close> with a body, \<^verbatim>\<open>operatorEqVarError\<close> is reported for an
  uninitialized member exactly when the name of the class appears in the body of the
  function). The claim fails: the loop that sets \<^verbatim>\<open>classNameUsed\<close> runs from
  \<^verbatim>\<open>operStart\<close>, the opening parenthesis of the parameter list, to its link, the closing
  parenthesis. For \<^verbatim>\<open>struct S { void operator = ( S & s ) { } int n ; } ;\<close> the body, the
  tokens 11 and 12, is empty: the name \<^verbatim>\<open>S\<close> does not appear in it, and
  \<^verbatim>\<open>operatorEqVarError\<close> is reported.
\<close>

theorem operatorEqVarError_body_counterexample:
  "map eid (fst (snd (constructors 20
      (tokenize [''struct'', ''S'', ''{'', ''void'', ''operator'', ''='', ''('', ''S'', ''&'', ''s'', '')'',
         ''{'', ''}'', ''int'', ''n'', '';'', ''}'', '';''])
      (\<lambda>tok1 classname funcname isStruct. Null)
      \<lparr>checkCodingStyle = True, inconclusive = False\<rparr> CheckClass_new)))
     = [''operatorEqVarError'']
   \<and> map str (take 2 (drop 11
      (tokenize [''struct'', ''S'', ''{'', ''void'', ''operator'', ''='', ''('', ''S'', ''&'', ''s'', '')'',
         ''{'', ''}'', ''int'', ''n'', '';'', ''}'', '';''])))
     = [''{'', ''}'']"
  by code_simp

text \<open>
  C2, amended: for a function of type \<^verbatim>\<open>OperatorEqual\<close> and a member variable that the
  dataflow left uninitialized and that is not static, \<^verbatim>\<open>operatorEqVarError\<close> is reported
  exactly when the name of the class is one of the tokens of the parameter list, from
  the opening parenthesis \<open>s\<close> (\<^verbatim>\<open>operStart\<close>) up to, and without, the closing parenthesis
  \<open>e\<close> (its link). Nothing else is reported for the variable.
\<close>

theorem operatorEqVarError_iff_class_name_in_parameters:
  assumes "type func = OperatorEqual" and "\<not> init var" and "\<not> Var.isStatic var"
    and "operStart toks func = Tok s" and "link (toks ! s) = Tok e"
    and "s \<le> e" and "e < length toks"
  shows "uninit_var_check toks info func var
         = Some (if \<exists>k. s \<le> k \<and> k < e \<and> str (toks ! k) = className info
                 then [operatorEqVarError (token func) (className info) (name var)]
                 else [])"
proof -
  from assms(6,7) have "s < length toks" by simp
  with assms(4,5) have l: "link_of toks (operStart toks func) = Some (Tok e)"
    by (simp add: link_of_def deref_def)
  from assms(1,2,3) l assms(4) classNameUsed_range[OF assms(6,7), of "className info"]
  show ?thesis by (auto simp add: uninit_var_check_def)
qed

theorem operatorEqVarError_iff_class_name_in_parameters_witness:
  "uninit_var_check
     (tokenize [''struct'', ''S'', ''{'', ''void'', ''operator'', ''='', ''('', ''S'', ''&'', ''s'', '')'',
        ''{'', ''}'', ''int'', ''n'', '';'', ''}'', '';''])
     \<lparr>isNamespace = False, className = ''S'', classDef = 0, classStart = 2, classEnd = Tok 16,
      numConstructors = 0, functionList = [], varlist = [], derivedFrom = [], nest = None,
      access = Public\<rparr>
     \<lparr>tokenDef = 5, token = 5, access = Public, hasBody = True, isInline = True, isConst = False,
      isVirtual = False, isStatic = False, isFriend = False, isOperator = True,
      type = OperatorEqual\<rparr>
     \<lparr>name = ''n'', init = False, priv = False, isMutable = False, Var.isStatic = False,
      isClass = False\<rparr>
   = Some [operatorEqVarError 5 ''S'' ''n'']"
proof -
  let ?toks = "tokenize [''struct'', ''S'', ''{'', ''void'', ''operator'', ''='', ''('', ''S'', ''&'',
        ''s'', '')'', ''{'', ''}'', ''int'', ''n'', '';'', ''}'', '';'']"
  let ?func = "\<lparr>tokenDef = 5, token = 5, access = Public, hasBody = True, isInline = True,
      isConst = False, isVirtual = False, isStatic = False, isFriend = False, isOperator = True,
      type = OperatorEqual\<rparr>"
  let ?var = "\<lparr>name = ''n'', init = False, priv = False, isMutable = False, Var.isStatic = False,
      isClass = False\<rparr>"
  have 1: "type ?func = OperatorEqual" by simp
  have 2: "\<not> init ?var" by simp
  have 3: "\<not> Var.isStatic ?var" by simp
  have 4: "operStart ?toks ?func = Tok 6" by code_simp
  have 5: "link (?toks ! 6) = Tok 10" by code_simp
  have 6: "(6::nat) \<le> 10" by simp
  have 7: "10 < length ?toks" by code_simp
  have "str (?toks ! 7) = ''S''" by code_simp
  then have 8: "\<exists>k. 6 \<le> k \<and> k < 10 \<and> str (?toks ! k) = ''S''"
    by (intro exI[of _ 7]) simp
  show ?thesis
    using operatorEqVarError_iff_class_name_in_parameters[OF 1 2 3 4 5 6 7] 8 by simp
qed

subsection \<open>operatorEqRetRefThis\<close>

definition operatorEqRetRefThisError :: "nat \<Rightarrow> ErrorMessage" where
  "operatorEqRetRefThisError tok =
     \<lparr>etok = tok, severity = style, eid = ''operatorEqRetRefThis'',
      emsg = [CHR 0x27] @ ''operator='' @ [CHR 0x27] @ '' should return reference to self''\<rparr>"

text \<open>The loop over the tokens from \<open>tok\<close> to \<^verbatim>\<open>last\<close> (here \<open>last_tok\<close>): whether a \<^verbatim>\<open>return\<close> was found, and
  the reports for the \<^verbatim>\<open>return\<close> statements that do not return \<^verbatim>\<open>*this\<close>.\<close>

function return_scan :: "token list \<Rightarrow> ptr \<Rightarrow> ptr \<Rightarrow> string \<Rightarrow> nat \<Rightarrow> bool \<times> ErrorMessage list" where
  "return_scan toks tok last_tok cname ftok =
     (case tok of
        Null \<Rightarrow> (False, [])
      | Tok t \<Rightarrow>
          if tok = last_tok then (False, [])
          else if str (toks ! t) = ''return'' then
            (let t' = (if Match toks (tok_next toks t) (litPattern (''( '' @ cname @ '' & )''))
                       then t + 4 else t)
             in case return_scan toks (tok_next toks t') last_tok cname ftok of
                  (foundReturn, errs) \<Rightarrow>
                    (True,
                     (if \<not> (Match toks (tokAt toks t' 1)
                                [pOpt [''(''], pLit ''*'', pLit ''this'', pAlt ['';'', ''='']]
                              \<or> Match toks (tokAt toks t' 1)
                                   [pOpt [''(''], pLit ''*'', pLit ''this'', pLit ''+='']
                              \<or> Match toks (tokAt toks t' 1)
                                   [pLit ''operator'', pLit ''='', pLit ''(''])
                      then [operatorEqRetRefThisError ftok] else []) @ errs))
          else return_scan toks (tok_next toks t) last_tok cname ftok)"
  by pat_completeness auto
termination
  by (relation "measure (\<lambda>(toks, tok, last_tok, cname, ftok).
                   case tok of Null \<Rightarrow> 0 | Tok t \<Rightarrow> Suc (length toks - t))")
     (auto simp: tok_next_def split: if_splits)

declare return_scan.simps [simp del]

text \<open>The body of the loop over \<^verbatim>\<open>functionList\<close>: "make sure return signature is correct",
  "find the ')'", the loop, and the report for no \<^verbatim>\<open>return\<close>.\<close>

definition operatorEqRetRefThis_function ::
  "token list \<Rightarrow> SpaceInfo \<Rightarrow> Func \<Rightarrow> ErrorMessage list option" where
  "operatorEqRetRefThis_function toks info func =
     (if type func = OperatorEqual \<and> hasBody func
         \<and> Match toks (tokAt toks (tokenDef func) (- 4))
              [pAlt ['';'', ''}'', ''{'', ''public:'', ''protected:'', ''private:''], pType, pLit ''&'']
         \<and> strAt toks (tokenDef func) (- 3) = className info
      then
        (case link_of toks (tok_next toks (token func)) of
           None \<Rightarrow> None
         | Some tok \<Rightarrow>
             (case deref toks tok of
                None \<Rightarrow> None
              | Some t \<Rightarrow>
                  (case link_of toks (tok_next toks t) of
                     None \<Rightarrow> None
                   | Some last_tok \<Rightarrow>
                       (case return_scan toks (tokAt toks t 2) last_tok (className info) (token func) of
                          (foundReturn, errs) \<Rightarrow>
                            Some (errs @ (if \<not> foundReturn
                                          then [operatorEqRetRefThisError (token func)]
                                          else []))))))
      else Some [])"

fun operatorEqRetRefThis_functions ::
  "token list \<Rightarrow> SpaceInfo \<Rightarrow> Func list \<Rightarrow> bool \<times> ErrorMessage list" where
  "operatorEqRetRefThis_functions toks info [] = (True, [])"
| "operatorEqRetRefThis_functions toks info (func # funcs) =
     (case operatorEqRetRefThis_function toks info func of
        None \<Rightarrow> (False, [])
      | Some errs \<Rightarrow>
          (case operatorEqRetRefThis_functions toks info funcs of
             (finished, errs') \<Rightarrow> (finished, errs @ errs')))"

fun operatorEqRetRefThis_scopes ::
  "token list \<Rightarrow> SpaceInfo list \<Rightarrow> (string \<times> nat) list \<Rightarrow> bool \<times> ErrorMessage list" where
  "operatorEqRetRefThis_scopes toks infos [] = (True, [])"
| "operatorEqRetRefThis_scopes toks infos (e # es) =
     (case operatorEqRetRefThis_functions toks (infos ! snd e) (functionList (infos ! snd e)) of
        (finished, errs) \<Rightarrow>
          if finished
          then (case operatorEqRetRefThis_scopes toks infos es of
                  (finished', errs') \<Rightarrow> (finished', errs @ errs'))
          else (False, errs))"

definition operatorEqRetRefThis ::
  "nat \<Rightarrow> token list \<Rightarrow> Settings \<Rightarrow> CheckClass \<Rightarrow> bool \<times> ErrorMessage list \<times> CheckClass" where
  "operatorEqRetRefThis n toks settings st =
     (if \<not> checkCodingStyle settings then (True, [], st)
      else (case createSymbolDatabase n toks st of
              None \<Rightarrow> (False, [], st)
            | Some st' \<Rightarrow>
                (case operatorEqRetRefThis_scopes toks (spaceInfos st') (spaceInfoMMap st') of
                   (finished, errs) \<Rightarrow> (finished, errs, st'))))"

text \<open>An \<^verbatim>\<open>operator=\<close> with an empty body is reported.\<close>

lemma operatorEqRetRefThis_example:
  "(case operatorEqRetRefThis 30
      (tokenize [''class'', ''A'', ''{'', ''A'', ''&'', ''operator'', ''='', ''('', ''A'', ''&'', ''a'', '')'',
         ''{'', ''}'', ''}'', '';''])
      \<lparr>checkCodingStyle = True, inconclusive = False\<rparr> CheckClass_new of
      (finished, errs, st) \<Rightarrow> (finished, map (\<lambda>e. (etok e, eid e)) errs))
   = (True, [(6, ''operatorEqRetRefThis'')])"
  by code_simp

text \<open>
  C8 (an \<^verbatim>\<open>operator=\<close> with a body, declared to return \<^verbatim>\<open>ClassName &\<close>, whose body has
  no \<^verbatim>\<open>return\<close> at all is reported). The end of the loop over the body is
  \<^verbatim>\<open>last = tok->next()->link()\<close>, where \<open>tok\<close> is the closing parenthesis of the
  parameter list. For an \<^verbatim>\<open>operator=\<close> that is declared \<^verbatim>\<open>const\<close> the token after the
  parenthesis is \<^verbatim>\<open>const\<close>, its link is null, and the loop runs on from the body to the
  end of the token list: a \<^verbatim>\<open>return\<close> of a later function counts as one of this
  function. In \<^verbatim>\<open>class A { A & operator = ( ) const { } f ( ) { return * this ; } } ;\<close>
  the function at token 6 is of type \<^verbatim>\<open>OperatorEqual\<close> and has a body, the tokens 10 and
  11, with no \<^verbatim>\<open>return\<close>; the tokens before \<^verbatim>\<open>operator\<close> are \<^verbatim>\<open>{ A &\<close>, the return
  type of the claim. The check comes to its end and reports nothing.
\<close>

theorem operatorEqRetRefThis_const_not_reported:
  "(case operatorEqRetRefThis 23
      (tokenize [''class'', ''A'', ''{'', ''A'', ''&'', ''operator'', ''='', ''('', '')'', ''const'',
         ''{'', ''}'', ''f'', ''('', '')'', ''{'', ''return'', ''*'', ''this'', '';'', ''}'', ''}'', '';''])
      \<lparr>checkCodingStyle = True, inconclusive = False\<rparr> CheckClass_new of
      (finished, errs, st) \<Rightarrow>
        (finished, errs,
         map (\<lambda>func. (type func, hasBody func, tokenDef func, token func))
           (concat (map functionList (spaceInfos st)))))
     = (True, [], [(OperatorEqual, True, 6, 6), (Function, True, 12, 12)])
   \<and> map str (take 4 (drop 2
      (tokenize [''class'', ''A'', ''{'', ''A'', ''&'', ''operator'', ''='', ''('', '')'', ''const'',
         ''{'', ''}'', ''f'', ''('', '')'', ''{'', ''return'', ''*'', ''this'', '';'', ''}'', ''}'', '';''])))
     = [''{'', ''A'', ''&'', ''operator'']
   \<and> map str (take 3 (drop 9
      (tokenize [''class'', ''A'', ''{'', ''A'', ''&'', ''operator'', ''='', ''('', '')'', ''const'',
         ''{'', ''}'', ''f'', ''('', '')'', ''{'', ''return'', ''*'', ''this'', '';'', ''}'', ''}'', '';''])))
     = [''const'', ''{'', ''}'']"
  by code_simp

subsection \<open>virtualDestructor\<close>

definition virtualDestructorError :: "nat \<Rightarrow> string \<Rightarrow> string \<Rightarrow> ErrorMessage" where
  "virtualDestructorError tok Base Derived =
     \<lparr>etok = tok, severity = error, eid = ''virtualDestructor'',
      emsg = ''Class '' @ Base @ '' which is inherited by class '' @ Derived
             @ '' does not have a virtual destructor''\<rparr>"

lemma findmatch_from_range:
  "findmatch_from toks i pat e = Tok j \<Longrightarrow> i \<le> j \<and> j < length toks"
proof (induction toks i pat e rule: findmatch_from.induct)
  case (1 toks i pat e)
  note fm = findmatch_from.simps[of toks i pat e]
  show ?case
  proof (cases "length toks \<le> i \<or> Tok i = e")
    case True
    with "1.prems" fm show ?thesis by simp
  next
    case False
    show ?thesis
    proof (cases "Match toks (Tok i) pat")
      case True
      with False "1.prems" fm show ?thesis by simp
    next
      case M: False
      with False "1.prems" fm have "findmatch_from toks (Suc i) pat e = Tok j" by simp
      from "1.IH"[OF False M this] show ?thesis by simp
    qed
  qed
qed

lemma findmatch_range:
  "findmatch toks p pat e = Tok j \<Longrightarrow> j < length toks \<and> (\<forall>i. p = Tok i \<longrightarrow> i \<le> j)"
  by (cases p) (auto simp: findmatch_def simp del: findmatch_from.simps dest: findmatch_from_range)

text \<open>"Find the destructor declaration for the base class": the first token at which
  \<^verbatim>\<open>%any% ~ baseName (\<close> matches and that is not \<^verbatim>\<open>::\<close>.\<close>

function base_destructor_loop :: "token list \<Rightarrow> ptr \<Rightarrow> string \<Rightarrow> ptr" where
  "base_destructor_loop toks base baseName =
     (case base of
        Null \<Rightarrow> Null
      | Tok b \<Rightarrow>
          if str (toks ! b) = ''::''
          then base_destructor_loop toks
                 (findmatch toks (tok_next toks b) (pAny # litPattern (''~ '' @ baseName @ '' ('')) Null)
                 baseName
          else base)"
  by pat_completeness auto
termination
proof (relation "measure (\<lambda>(toks, base, baseName).
                   case base of Null \<Rightarrow> 0 | Tok b \<Rightarrow> Suc (length toks - b))", goal_cases)
  case 1
  show ?case by simp
next
  case (2 toks base baseName b)
  show ?case
  proof (cases "findmatch toks (tok_next toks b) (pAny # litPattern (''~ '' @ baseName @ '' ('')) Null")
    case Null
    with 2 show ?thesis by simp
  next
    case (Tok j)
    from findmatch_range[OF Tok] have "j < length toks" "tok_next toks b = Tok (Suc b) \<longrightarrow> Suc b \<le> j"
      by simp_all
    moreover from Tok have "tok_next toks b \<noteq> Null" by (auto simp: findmatch_def)
    then have "tok_next toks b = Tok (Suc b)" using tok_next_cases[of toks b] by simp
    ultimately show ?thesis using 2 Tok by simp
  qed
qed

declare base_destructor_loop.simps [simp del]

definition base_destructor :: "token list \<Rightarrow> string \<Rightarrow> ptr" where
  "base_destructor toks baseName =
     base_destructor_loop toks
       (findmatch toks (Tok 0) (pAny # litPattern (''~ '' @ baseName @ '' ('')) Null) baseName"

text \<open>\<^verbatim>\<open>while (Token::Match(base, "%var%") && base->str() != "virtual") base = base->previous();\<close>\<close>

function base_loop :: "token list \<Rightarrow> ptr \<Rightarrow> ptr" where
  "base_loop toks base =
     (case base of
        Null \<Rightarrow> Null
      | Tok b \<Rightarrow>
          if Match toks base [pVar] \<and> str (toks ! b) \<noteq> ''virtual''
          then base_loop toks (tok_previous toks b)
          else base)"
  by pat_completeness auto
termination
  by (relation "measure (\<lambda>(toks, base). case base of Null \<Rightarrow> 0 | Tok b \<Rightarrow> Suc b)")
     (auto simp: tok_previous_def split: if_splits)

declare base_loop.simps [simp del]

text \<open>"Make sure that the destructor is public": the walk back from \<open>reverseTok\<close>. The
  result says whether \<^verbatim>\<open>virtualDestructorError\<close> is called. (\<open>indent\<close> is an \<^verbatim>\<open>int\<close> of
  the source; it is taken not to leave the range of one.)\<close>

function reverseTok_loop :: "token list \<Rightarrow> ptr \<Rightarrow> int \<Rightarrow> bool" where
  "reverseTok_loop toks reverseTok indent =
     (case reverseTok of
        Null \<Rightarrow> False
      | Tok r \<Rightarrow>
          if str (toks ! r) = ''public:'' then True
          else if str (toks ! r) = ''protected:'' \<or> str (toks ! r) = ''private:'' then False
          else if str (toks ! r) = ''{'' then
            (if indent + 1 \<ge> 1 then False
             else reverseTok_loop toks (tok_previous toks r) (indent + 1))
          else if str (toks ! r) = ''}'' then reverseTok_loop toks (tok_previous toks r) (indent - 1)
          else reverseTok_loop toks (tok_previous toks r) indent)"
  by pat_completeness auto
termination
  by (relation "measure (\<lambda>(toks, reverseTok, indent).
                   case reverseTok of Null \<Rightarrow> 0 | Tok r \<Rightarrow> Suc r)")
     (auto simp: tok_previous_def split: if_splits)

declare reverseTok_loop.simps [simp del]

text \<open>The reports for one base class that is inherited with \<^verbatim>\<open>public\<close>.\<close>

definition virtualDestructor_base :: "token list \<Rightarrow> string \<Rightarrow> string \<Rightarrow> ErrorMessage list" where
  "virtualDestructor_base toks baseName derivedName =
     (let reverseTok = base_destructor toks baseName
      in case base_loop toks reverseTok of
           Null \<Rightarrow>
             (case findmatch toks (Tok 0) (litPattern (''class '' @ baseName @ '' {'')) Null of
                Null \<Rightarrow> []
              | Tok c \<Rightarrow> [virtualDestructorError c baseName derivedName])
         | Tok b \<Rightarrow>
             if str (toks ! b) = ''virtual'' then []
             else if findmatch toks (Tok 0) (litPattern (''class '' @ baseName @ '' {'')) Null = Null
               then []
             else if reverseTok_loop toks reverseTok 0
               then [virtualDestructorError b baseName derivedName]
             else [])"

text \<open>"Update derived so it's ready for the next loop."\<close>

function next_base :: "token list \<Rightarrow> nat \<Rightarrow> ptr" where
  "next_base toks d =
     (if str (toks ! d) = ''{'' then Tok d
      else if str (toks ! d) = '','' then tok_next toks d
      else (case tok_next toks d of Null \<Rightarrow> Null | Tok d' \<Rightarrow> next_base toks d'))"
  by pat_completeness auto
termination
  by (relation "measure (\<lambda>(toks, d). length toks - d)") (auto simp: tok_next_def split: if_splits)

declare next_base.simps [simp del]

text \<open>"Iterate through each base class...": the reports, and \<open>derived\<close> after the loop.\<close>

fun virtualDestructor_bases ::
  "nat \<Rightarrow> token list \<Rightarrow> ptr \<Rightarrow> string \<Rightarrow> bool \<times> ErrorMessage list \<times> ptr" where
  "virtualDestructor_bases 0 toks derived derivedName = (False, [], derived)"
| "virtualDestructor_bases (Suc n) toks derived derivedName =
     (if \<not> Match toks derived [pVar] then (True, [], derived)
      else
        (case (if Match toks derived [pAlt [''public'', ''protected'', ''private'']]
               then next_of toks derived else Some derived) of
           None \<Rightarrow> (False, [], derived)
         | Some Null \<Rightarrow> (False, [], Null)
         | Some (Tok d) \<Rightarrow>
             (case virtualDestructor_bases n toks (next_base toks d) derivedName of
                (finished, errs, derived') \<Rightarrow>
                  (finished,
                   (if str_of toks derived = Some ''public''
                    then virtualDestructor_base toks (strAt toks d 0) derivedName else []) @ errs,
                   derived'))))"

text \<open>The loop over the class declarations \<^verbatim>\<open>class %var% : %var%\<close>, and the check.\<close>

fun virtualDestructor_loop :: "nat \<Rightarrow> token list \<Rightarrow> ptr \<Rightarrow> bool \<times> ErrorMessage list" where
  "virtualDestructor_loop 0 toks derived = (False, [])"
| "virtualDestructor_loop (Suc n) toks derived =
     (case findmatch toks derived [pLit ''class'', pVar, pLit '':'', pVar] Null of
        Null \<Rightarrow> (True, [])
      | Tok d \<Rightarrow>
          (let derived_destructor =
                 findmatch toks (Tok 0) (litPattern (''~ '' @ strAt toks d 1 @ '' ( ) {'')) Null
           in if derived_destructor = Null
                 \<or> Match toks derived_destructor
                      [pLit ''~'', pVar, pLit ''('', pLit '')'', pLit ''{'', pLit ''}'']
              then virtualDestructor_loop n toks (tok_next toks d)
              else
                (case virtualDestructor_bases n toks (tokAt toks d 3) (strAt toks d 1) of
                   (finished, errs, derived') \<Rightarrow>
                     if finished
                     then (case virtualDestructor_loop n toks derived' of
                             (finished', errs') \<Rightarrow> (finished', errs @ errs'))
                     else (False, errs))))"

definition virtualDestructor :: "nat \<Rightarrow> token list \<Rightarrow> Settings \<Rightarrow> bool \<times> ErrorMessage list" where
  "virtualDestructor n toks settings =
     (if \<not> inconclusive settings then (True, [])
      else virtualDestructor_loop n toks (Tok 0))"

subsection \<open>Destructors in a protected or private section\<close>

text \<open>
  \<open>brace_depth toks k r\<close>: the number of \<^verbatim>\<open>{\<close> less the number of \<^verbatim>\<open>}\<close> among the tokens
  after \<open>k\<close> up to \<open>r\<close>.

  \<open>destructor_not_public toks r\<close>: walking backward from the token \<open>r\<close>, a label
  \<^verbatim>\<open>protected:\<close> or \<^verbatim>\<open>private:\<close>, or the \<^verbatim>\<open>{\<close> that opens the class (a \<^verbatim>\<open>{\<close> that is not
  closed up to \<open>r\<close>), comes before any label \<^verbatim>\<open>public:\<close>. The labels are tokens: a label
  counts whichever class it belongs to.

  \<open>protected_or_private_destructor toks baseName\<close>: the class \<open>baseName\<close> has a destructor
  declaration, found at the token \<open>r\<close> before its \<^verbatim>\<open>~\<close>, in the body of a class (a token
  up to \<open>r\<close>, the \<^verbatim>\<open>{\<close> of the class for one, is not a name), and it lies in a protected
  or private section in the sense above.
\<close>

definition brace_depth :: "token list \<Rightarrow> nat \<Rightarrow> nat \<Rightarrow> int" where
  "brace_depth toks k r =
     int (length (filter (\<lambda>i. str (toks ! i) = ''{'') [Suc k..<Suc r]))
     - int (length (filter (\<lambda>i. str (toks ! i) = ''}'') [Suc k..<Suc r]))"

definition destructor_not_public :: "token list \<Rightarrow> nat \<Rightarrow> bool" where
  "destructor_not_public toks r =
     list_ex (\<lambda>k. (str (toks ! k) = ''protected:'' \<or> str (toks ! k) = ''private:''
                   \<or> str (toks ! k) = ''{'' \<and> 0 \<le> brace_depth toks k r)
                  \<and> list_all (\<lambda>i. str (toks ! i) \<noteq> ''public:'') [Suc k..<Suc r])
             [0..<Suc r]"

definition protected_or_private_destructor :: "token list \<Rightarrow> string \<Rightarrow> bool" where
  "protected_or_private_destructor toks baseName =
     (case base_destructor toks baseName of
        Null \<Rightarrow> False
      | Tok r \<Rightarrow> r < length toks \<and> list_ex (\<lambda>k. \<not> isName (toks ! k)) [0..<Suc r]
                 \<and> destructor_not_public toks r)"













text \<open>A base class with a private destructor: nothing is reported.\<close>

lemma virtualDestructor_private_example:
  "virtualDestructor 3
     (tokenize [''class'', ''B'', ''{'', ''private:'', ''~'', ''B'', ''('', '')'', '';'', ''}'', '';'',
        ''class'', ''D'', '':'', ''public'', ''B'', ''{'', ''~'', ''D'', ''('', '')'', ''{'', ''x'', '';'',
        ''}'', ''}'', '';''])
     \<lparr>checkCodingStyle = False, inconclusive = True\<rparr> = (True, [])
   \<and> protected_or_private_destructor
       (tokenize [''class'', ''B'', ''{'', ''private:'', ''~'', ''B'', ''('', '')'', '';'', ''}'', '';'',
          ''class'', ''D'', '':'', ''public'', ''B'', ''{'', ''~'', ''D'', ''('', '')'', ''{'', ''x'', '';'',
          ''}'', ''}'', '';'']) ''B''"
  by code_simp

end
